theory Spec2Isabelle
  imports Main "HOL-Library.Sublist"
begin

text \<open>
  A shallow embedding of the deployment-tracking core of the OpenScan Hardhat plugin:
  the class \<open>DeploymentTracker\<close> (packages/plugin/src/deployment-tracker.ts), the
  loader of structured deployment records (packages/plugin/src/artifacts.ts), the
  aggregator \<open>artifactLoader\<close> of \<open>createOpenscanServer\<close> (the server module, lines
  144-149 of src/unnamed/part_002) and \<open>injectArtifactsScript\<close>
  (packages/plugin/src/services/webapp.ts). The definitions come first, the properties
  after them.
\<close>

section \<open>JavaScript values and strings\<close>

text \<open>
  Strings are lists of characters. A JavaScript string is a sequence of UTF-16 code
  units; the model covers the code units below 256 (hex strings, addresses, HTML and
  JSON punctuation are all in that range).

  \<open>jsval\<close> is the run-time value of a parsed JSON document (\<open>JSON.parse\<close>) plus
  \<open>undefined\<close>, the value of a missing property. The TypeScript casts of the source
  (\<open>content.bytecode as string\<close>) check nothing at run time, so a field read from a file
  is a \<open>jsval\<close>. \<open>JObj\<close> lists the own properties in enumeration order, keys distinct.
  Numbers are modelled as integers: only their truthiness and their decimal rendering
  are ever used.
\<close>

datatype jsval =
    JUndefined
  | JNull
  | JBool bool
  | JNum int
  | JStr string
  | JArr "jsval list"
  | JObj "(string \<times> jsval) list"

datatype error = TypeError | SyntaxError | IOError

text \<open>\<open>String.prototype.toLowerCase\<close> on code units below 256: A-Z and the accented
  capitals U+00C0..U+00DE (without the multiplication sign U+00D7) move up by 32.\<close>

definition toLowerChar :: "char \<Rightarrow> char" where
  "toLowerChar c =
     (let n = (of_char c :: nat)
      in if (65 \<le> n \<and> n \<le> 90) \<or> (192 \<le> n \<and> n \<le> 222 \<and> n \<noteq> 215)
         then char_of (n + 32) else c)"

definition toLowerCase :: "string \<Rightarrow> string" where
  "toLowerCase s = map toLowerChar s"

text \<open>\<open>s.startsWith(p)\<close> and \<open>s.endsWith(p)\<close>.\<close>

definition startsWith :: "string \<Rightarrow> string \<Rightarrow> bool" where
  "startsWith s p = (take (length p) s = p)"

definition endsWith :: "string \<Rightarrow> string \<Rightarrow> bool" where
  "endsWith s p = (length p \<le> length s \<and> drop (length s - length p) s = p)"

text \<open>Truthiness (\<open>ToBoolean\<close>), as \<open>if (x)\<close>, \<open>!x\<close> and \<open>a && b\<close> use it.\<close>

fun truthy :: "jsval \<Rightarrow> bool" where
  "truthy JUndefined = False"
| "truthy JNull = False"
| "truthy (JBool b) = b"
| "truthy (JNum n) = (n \<noteq> 0)"
| "truthy (JStr s) = (s \<noteq> [])"
| "truthy (JArr xs) = True"
| "truthy (JObj kvs) = True"

section \<open>The deployment tracker: bytecode matching\<close>

text \<open>\<open>interface CompiledArtifact\<close> of deployment-tracker.ts. The fields hold what
  \<open>scanDir\<close> read from the artifact file.\<close>

record CompiledArtifact =
  contractName :: jsval
  sourceName :: jsval
  abi :: jsval
  bytecode :: jsval
  buildInfoId :: jsval

text \<open>
  \<open>findMatchingArtifact\<close> (deployment-tracker.ts, lines 134-147): the loop over
  \<open>this.compiledArtifacts\<close>. \<open>artifact.bytecode.toLowerCase()\<close> throws a TypeError when
  the bytecode is not a string; \<open>Inr None\<close> is the \<open>null\<close> result.
\<close>

fun findMatchingArtifact :: "CompiledArtifact list \<Rightarrow> string \<Rightarrow> error + CompiledArtifact option" where
  "findMatchingArtifact [] creationData = Inr None"
| "findMatchingArtifact (artifact # rest) creationData =
     (let normalizedData = toLowerCase creationData
      in case bytecode artifact of
           JStr b \<Rightarrow>
             (let normalizedBytecode = toLowerCase b
              in if length normalizedBytecode > 2 \<and> startsWith normalizedData normalizedBytecode
                 then Inr (Some artifact)
                 else findMatchingArtifact rest creationData)
         | _ \<Rightarrow> Inl TypeError)"

text \<open>The matching condition in the specification's words: the candidate's bytecode is
  longer than two characters and, compared case-insensitively, a prefix of the creation
  data.\<close>

definition prefix_match :: "string \<Rightarrow> CompiledArtifact \<Rightarrow> bool" where
  "prefix_match creationData a =
     (case bytecode a of
        JStr b \<Rightarrow> 2 < length b \<and> prefix (toLowerCase b) (toLowerCase creationData)
      | _ \<Rightarrow> False)"

text \<open>The run-time shape the interface declares for the field the matcher reads.\<close>

definition bytecode_is_string :: "CompiledArtifact \<Rightarrow> bool" where
  "bytecode_is_string a = (case bytecode a of JStr b \<Rightarrow> True | _ \<Rightarrow> False)"

section \<open>Objects as property lists\<close>

text \<open>
  An object is the list of its own properties in enumeration order. The keys of the
  objects built here are addresses and field names; a key that is a canonical array
  index (which JavaScript would enumerate first) does not occur among them. The
  operations are the same whether a property holds a value or, in the store model
  further down, a reference to an object.
\<close>

type_synonym props = "(string \<times> jsval) list"

text \<open>\<open>CreateDataProperty\<close>: what an object literal and an object spread do for each
  key. An existing key keeps its place, a new key goes last.\<close>

fun define_prop :: "(string \<times> 'a) list \<Rightarrow> string \<Rightarrow> 'a \<Rightarrow> (string \<times> 'a) list" where
  "define_prop [] k v = [(k, v)]"
| "define_prop ((k', v') # ps) k v =
     (if k' = k then (k, v) # ps else (k', v') # define_prop ps k v)"

text \<open>\<open>obj[k] = v\<close> on an ordinary object. Assigning to \<open>__proto__\<close> reaches the
  accessor of \<open>Object.prototype\<close> and creates no own property; the prototype it may
  install is invisible to \<open>Object.keys\<close>, spread and \<open>JSON.stringify\<close> and is not
  tracked.\<close>

definition set_prop :: "(string \<times> 'a) list \<Rightarrow> string \<Rightarrow> 'a \<Rightarrow> (string \<times> 'a) list" where
  "set_prop ps k v = (if k = ''__proto__'' then ps else define_prop ps k v)"

text \<open>\<open>{ ...target, ...source }\<close> continues an object under construction with the own
  properties of \<open>source\<close>, in order.\<close>

definition object_spread :: "(string \<times> 'a) list \<Rightarrow> (string \<times> 'a) list \<Rightarrow> (string \<times> 'a) list" where
  "object_spread target source = foldl (\<lambda>obj (k, v). define_prop obj k v) target source"

definition Object_keys :: "(string \<times> 'a) list \<Rightarrow> string list" where
  "Object_keys ps = map fst ps"

text \<open>\<open>x.name\<close> on a value that is neither \<open>null\<close> nor \<open>undefined\<close>, for the field
  names the source reads (\<open>contractName\<close>, \<open>abi\<close>, \<open>bytecode\<close>, \<open>sourceName\<close>,
  \<open>buildInfoId\<close>): no prototype defines them, so only an own property of an object
  gives a value.\<close>

fun own_prop :: "jsval \<Rightarrow> string \<Rightarrow> jsval" where
  "own_prop (JObj ps) k = (case map_of ps k of Some v \<Rightarrow> v | None \<Rightarrow> JUndefined)"
| "own_prop v k = JUndefined"

text \<open>\<open>x ?? d\<close>.\<close>

definition nullish :: "jsval \<Rightarrow> jsval \<Rightarrow> jsval" where
  "nullish x d = (if x = JUndefined \<or> x = JNull then d else x)"

type_synonym AddressMap = props

section \<open>Strings: split, number rendering, string conversion\<close>

text \<open>\<open>s.split(sep)\<close> for a one-character separator; the result is never empty.\<close>

fun split_on :: "char \<Rightarrow> string \<Rightarrow> string list" where
  "split_on sep [] = [[]]"
| "split_on sep (c # cs) =
     (if c = sep then [] # split_on sep cs
      else (case split_on sep cs of [] \<Rightarrow> [[c]] | w # ws \<Rightarrow> (c # w) # ws))"

text \<open>\<open>xs.pop()\<close> read as a value: the last element, \<open>undefined\<close> (\<open>None\<close>) on an empty
  array.\<close>

definition pop :: "'a list \<Rightarrow> 'a option" where
  "pop xs = (case rev xs of [] \<Rightarrow> None | x # _ \<Rightarrow> Some x)"

fun show_nat :: "nat \<Rightarrow> string" where
  "show_nat n =
     (if n < 10 then [char_of (48 + n)] else show_nat (n div 10) @ [char_of (48 + n mod 10)])"

definition show_int :: "int \<Rightarrow> string" where
  "show_int n = (if n < 0 then CHR ''-'' # show_nat (nat (- n)) else show_nat (nat n))"

fun join_with :: "string \<Rightarrow> string list \<Rightarrow> string" where
  "join_with sep [] = []"
| "join_with sep [x] = x"
| "join_with sep (x # y # ys) = x @ sep @ join_with sep (y # ys)"

text \<open>Collects the results of a list of fallible steps; the first error wins.\<close>

fun sequence_sum :: "('e + 'a) list \<Rightarrow> 'e + 'a list" where
  "sequence_sum [] = Inr []"
| "sequence_sum (Inl err # rs) = Inl err"
| "sequence_sum (Inr x # rs) = (case sequence_sum rs of Inl err \<Rightarrow> Inl err | Inr xs \<Rightarrow> Inr (x # xs))"

text \<open>
  \<open>ToString\<close>, as a template literal and a computed property key apply it. A parsed
  JSON object has no callable \<open>toString\<close> of its own, so it renders as
  \<open>[object Object]\<close> unless an own property shadows the inherited method, in which case
  the conversion throws. An array joins its elements with commas, \<open>null\<close> rendering
  empty.
\<close>

fun ToString :: "jsval \<Rightarrow> error + string" where
  "ToString JUndefined = Inr ''undefined''"
| "ToString JNull = Inr ''null''"
| "ToString (JBool b) = Inr (if b then ''true'' else ''false'')"
| "ToString (JNum n) = Inr (show_int n)"
| "ToString (JStr s) = Inr s"
| "ToString (JArr xs) =
     (case sequence_sum
             (map (\<lambda>x. if x = JNull \<or> x = JUndefined then Inr [] else ToString x) xs) of
        Inl err \<Rightarrow> Inl err
      | Inr parts \<Rightarrow> Inr (join_with '','' parts))"
| "ToString (JObj ps) =
     (if ''toString'' \<in> set (map fst ps) then Inl TypeError else Inr ''[object Object]'')"

section \<open>The file system and the library functions\<close>

text \<open>
  \<open>node:fs\<close>, \<open>node:path\<close> and \<open>JSON.parse\<close> are library code. A file system node is
  a file with its text (\<open>None\<close> when reading it fails) or a directory with its listing
  (\<open>None\<close> when \<open>readdirSync\<close> fails on it, as on a directory without read
  permission). A listing holds the entry names in \<open>readdirSync\<close> order, each with the
  node \<open>statSync\<close> finds at that name: \<open>None\<close> when \<open>statSync\<close> throws, as on a
  symbolic link whose target is missing. The operating system bounds the number of
  links followed in one path, so the walk through a cyclic link also ends at an entry
  on which \<open>statSync\<close> throws, and what a walk sees is a finite tree. The environment
  resolves a path to the node found there (\<open>None\<close>: nothing exists at the path), joins
  path segments, and parses JSON text (\<open>None\<close>: a SyntaxError). Every theorem below
  holds for every environment.
\<close>

datatype fsnode = File "string option" | Dir "(string \<times> fsnode option) list option"

record env =
  tree_at :: "string \<Rightarrow> fsnode option"
  path_join :: "string list \<Rightarrow> string"
  JSON_parse :: "string \<Rightarrow> jsval option"

definition existsSync :: "env \<Rightarrow> string \<Rightarrow> bool" where
  "existsSync e p = (tree_at e p \<noteq> None)"

text \<open>\<open>readFileSync(p, "utf-8")\<close>: \<open>None\<close> when the call throws (no such file, a
  directory, no permission).\<close>

definition readFileSync :: "env \<Rightarrow> string \<Rightarrow> string option" where
  "readFileSync e p = (case tree_at e p of Some (File (Some text)) \<Rightarrow> Some text | _ \<Rightarrow> None)"

text \<open>\<open>readdirSync(p)\<close>: \<open>None\<close> when the call throws (no directory there, or one
  that cannot be listed).\<close>

definition readdirSync :: "env \<Rightarrow> string \<Rightarrow> string list option" where
  "readdirSync e p =
     (case tree_at e p of Some (Dir (Some entries)) \<Rightarrow> Some (map fst entries) | _ \<Rightarrow> None)"

text \<open>\<open>JSON.parse(readFileSync(p, "utf-8"))\<close> inside a \<open>try\<close> whose \<open>catch\<close> ignores the
  error: \<open>None\<close> when either call throws.\<close>

definition try_read_json :: "env \<Rightarrow> string \<Rightarrow> jsval option" where
  "try_read_json e p = (case readFileSync e p of None \<Rightarrow> None | Some text \<Rightarrow> JSON_parse e text)"

section \<open>The deployment tracker: scanning the compiled artifacts\<close>

text \<open>
  The body of the \<open>try\<close> block of \<open>scanDir\<close> (deployment-tracker.ts, lines 45-58) for
  one file: the text read, parsed, and accepted when \<open>contractName\<close>, \<open>abi\<close> and
  \<open>bytecode\<close> are all truthy. \<open>Inl\<close> is the exception the block raises (a failed read,
  a SyntaxError, a property read of \<open>null\<close>); \<open>Inr None\<close> is a file that is read and
  not accepted.
\<close>

definition readCompiledArtifact :: "env \<Rightarrow> string option \<Rightarrow> error + CompiledArtifact option" where
  "readCompiledArtifact e file =
     (case file of
        None \<Rightarrow> Inl IOError
      | Some text \<Rightarrow>
          (case JSON_parse e text of
             None \<Rightarrow> Inl SyntaxError
           | Some content \<Rightarrow>
               if content = JNull \<or> content = JUndefined then Inl TypeError
               else if truthy (own_prop content ''contractName'') \<and> truthy (own_prop content ''abi'')
                       \<and> truthy (own_prop content ''bytecode'')
               then Inr (Some \<lparr>contractName = own_prop content ''contractName'',
                               sourceName = nullish (own_prop content ''sourceName'') (JStr []),
                               abi = own_prop content ''abi'',
                               bytecode = own_prop content ''bytecode'',
                               buildInfoId = own_prop content ''buildInfoId''\<rparr>)
               else Inr None))"

text \<open>
  \<open>scanDir\<close> (lines 37-64) over the listing of a directory; the last argument is
  \<open>this.compiledArtifacts\<close>, to which accepted artifacts are pushed. \<open>statSync\<close>
  (line 40) and the \<open>readdirSync\<close> of the recursive call (line 38) are outside the
  \<open>try\<close> block of line 45, so their exceptions leave the scan: \<open>Inl\<close>. A directory
  entry is scanned recursively, a file whose name ends in \<open>.json\<close> goes through the
  \<open>try\<close> block, whose \<open>catch\<close> skips the file, and any other file is ignored.
\<close>

fun scanDir ::
    "env \<Rightarrow> (string \<times> fsnode option) list \<Rightarrow> CompiledArtifact list \<Rightarrow> error + CompiledArtifact list" where
  "scanDir e [] acc = Inr acc"
| "scanDir e ((entry, None) # rest) acc = Inl IOError"
| "scanDir e ((entry, Some (Dir None)) # rest) acc = Inl IOError"
| "scanDir e ((entry, Some (Dir (Some children))) # rest) acc =
     (case scanDir e children acc of
        Inl err \<Rightarrow> Inl err
      | Inr acc' \<Rightarrow> scanDir e rest acc')"
| "scanDir e ((entry, Some (File content)) # rest) acc =
     scanDir e rest
       (if endsWith entry ''.json''
        then (case readCompiledArtifact e content of
                Inr (Some artifact) \<Rightarrow> acc @ [artifact]
              | Inr None \<Rightarrow> acc
              | Inl err \<Rightarrow> acc)
        else acc)"

text \<open>\<open>class DeploymentTracker\<close>: its four private fields.\<close>

record DeploymentTracker =
  projectRoot :: string
  compiledArtifacts :: "CompiledArtifact list"
  trackedDeployments :: AddressMap
  pendingTxs :: "string \<rightharpoonup> string"

text \<open>\<open>loadCompiledArtifacts\<close> (lines 31-35). The second component is the exception
  that leaves the method: \<open>readdirSync\<close> throws when the path is not a directory or
  cannot be listed, and \<open>scanDir\<close> throws as described above. The method has no
  \<open>try\<close>, so the exception leaves the constructor too and no tracker object comes
  into being; the first component is then the tracker as it was before the scan.\<close>

definition loadCompiledArtifacts :: "env \<Rightarrow> DeploymentTracker \<Rightarrow> DeploymentTracker \<times> error option" where
  "loadCompiledArtifacts e t =
     (let artifactsDir = path_join e [projectRoot t, ''artifacts'', ''contracts'']
      in case tree_at e artifactsDir of
           None \<Rightarrow> (t, None)
         | Some (File text) \<Rightarrow> (t, Some IOError)
         | Some (Dir None) \<Rightarrow> (t, Some IOError)
         | Some (Dir (Some entries)) \<Rightarrow>
             (case scanDir e entries (compiledArtifacts t) of
                Inl err \<Rightarrow> (t, Some err)
              | Inr artifacts \<Rightarrow> (t\<lparr>compiledArtifacts := artifacts\<rparr>, None)))"

text \<open>The constructor (lines 23-26) with the field initialisers.\<close>

definition new_DeploymentTracker :: "env \<Rightarrow> string \<Rightarrow> DeploymentTracker \<times> error option" where
  "new_DeploymentTracker e root =
     loadCompiledArtifacts e
       \<lparr>projectRoot = root, compiledArtifacts = [], trackedDeployments = [], pendingTxs = Map.empty\<rparr>"

section \<open>The deployment tracker: the public operations\<close>

text \<open>\<open>trackSendTransaction\<close> (lines 70-72): \<open>this.pendingTxs.set(txHash, data)\<close>.\<close>

definition trackSendTransaction :: "DeploymentTracker \<Rightarrow> string \<Rightarrow> string \<Rightarrow> DeploymentTracker" where
  "trackSendTransaction t txHash txData = t\<lparr>pendingTxs := (pendingTxs t)(txHash \<mapsto> txData)\<rparr>"

text \<open>
  "Try to load source code" (lines 95-112), on the properties of the entry under
  construction. \<open>artifact.sourceName.split\<close> throws a TypeError when the truthy source
  name is not a string; a failed read inside the \<open>try\<close> leaves the entry as it is.
\<close>

definition attachSourceCode :: "env \<Rightarrow> string \<Rightarrow> jsval \<Rightarrow> props \<Rightarrow> error + props" where
  "attachSourceCode e root srcName entry =
     (if truthy srcName
      then (case srcName of
              JStr s \<Rightarrow>
                (case pop (split_on CHR ''/'' s) of
                   None \<Rightarrow> Inr entry
                 | Some sourceFileName \<Rightarrow>
                     if sourceFileName \<noteq> []
                     then (let sourcePath = path_join e [root, ''contracts'', sourceFileName]
                           in if existsSync e sourcePath
                              then (case readFileSync e sourcePath of
                                      Some text \<Rightarrow> Inr (set_prop entry ''sourceCode'' (JStr text))
                                    | None \<Rightarrow> Inr entry)
                              else Inr entry)
                     else Inr entry)
            | _ \<Rightarrow> Inl TypeError)
      else Inr entry)"

text \<open>
  "Try to load build info" (lines 114-129). The template literal converts the truthy
  \<open>buildInfoId\<close> to a string, which can throw; a failed read or parse inside the \<open>try\<close>
  leaves the entry as it is.
\<close>

definition attachBuildInfo :: "env \<Rightarrow> string \<Rightarrow> jsval \<Rightarrow> props \<Rightarrow> error + props" where
  "attachBuildInfo e root buildId entry =
     (if truthy buildId
      then (case ToString buildId of
              Inl err \<Rightarrow> Inl err
            | Inr idText \<Rightarrow>
                (let buildInfoPath = path_join e [root, ''artifacts'', ''build-info'', idText @ ''.json'']
                 in if existsSync e buildInfoPath
                    then (case try_read_json e buildInfoPath of
                            Some info \<Rightarrow> Inr (set_prop entry ''buildInfo'' info)
                          | None \<Rightarrow> Inr entry)
                    else Inr entry))
      else Inr entry)"

text \<open>The object literal of lines 87-93.\<close>

definition new_entry :: "CompiledArtifact \<Rightarrow> string \<Rightarrow> props" where
  "new_entry artifact contractAddress =
     [(''abi'', abi artifact),
      (''contractName'', contractName artifact),
      (''sourceName'', sourceName artifact),
      (''buildInfoId'', buildInfoId artifact),
      (''deployments'', JArr [JStr contractAddress])]"

text \<open>
  \<open>trackDeploymentReceipt\<close> (lines 79-132). The result is the tracker after the call
  and the exception that left it, if any. \<open>if (!data) return\<close> returns for a hash that
  is not pending and for one that is pending with the empty string; the pending entry
  is deleted before the match is attempted.
\<close>

definition trackDeploymentReceipt ::
    "env \<Rightarrow> DeploymentTracker \<Rightarrow> string \<Rightarrow> string \<Rightarrow> DeploymentTracker \<times> error option" where
  "trackDeploymentReceipt e t txHash contractAddress =
     (case pendingTxs t txHash of
        None \<Rightarrow> (t, None)
      | Some txData \<Rightarrow>
          if txData = [] then (t, None)
          else
            (let t1 = t\<lparr>pendingTxs := (pendingTxs t)(txHash := None)\<rparr>
             in case findMatchingArtifact (compiledArtifacts t1) txData of
                  Inl err \<Rightarrow> (t1, Some err)
                | Inr None \<Rightarrow> (t1, None)
                | Inr (Some artifact) \<Rightarrow>
                    (case attachSourceCode e (projectRoot t1) (sourceName artifact)
                            (new_entry artifact contractAddress) of
                       Inl err \<Rightarrow> (t1, Some err)
                     | Inr entry1 \<Rightarrow>
                         (case attachBuildInfo e (projectRoot t1) (buildInfoId artifact) entry1 of
                            Inl err \<Rightarrow> (t1, Some err)
                          | Inr entry2 \<Rightarrow>
                              (t1\<lparr>trackedDeployments :=
                                     set_prop (trackedDeployments t1) (toLowerCase contractAddress)
                                       (JObj entry2)\<rparr>,
                               None)))))"

text \<open>\<open>getArtifacts\<close> (lines 149-151) as a value: the own properties of a fresh object
  spread from \<open>this.trackedDeployments\<close>. The identity of the returned object is the
  subject of the store model further down.\<close>

definition getArtifacts :: "DeploymentTracker \<Rightarrow> AddressMap" where
  "getArtifacts t = object_spread [] (trackedDeployments t)"

text \<open>The shape the interface declares for the fields \<open>trackDeploymentReceipt\<close> calls
  methods on: a string bytecode, a string source name, and a build-info identifier that
  is a string or absent.\<close>

definition well_typed :: "CompiledArtifact \<Rightarrow> bool" where
  "well_typed a =
     (bytecode_is_string a
      \<and> (case sourceName a of JStr s \<Rightarrow> True | _ \<Rightarrow> False)
      \<and> (case buildInfoId a of JStr s \<Rightarrow> True | JUndefined \<Rightarrow> True | _ \<Rightarrow> False))"

text \<open>Example artifacts for the concrete instances below.\<close>

definition sample_artifact :: "string \<Rightarrow> string \<Rightarrow> CompiledArtifact" where
  "sample_artifact name code =
     \<lparr>contractName = JStr name, sourceName = JStr (''contracts/'' @ name @ ''.sol''),
      abi = JArr [], bytecode = JStr code, buildInfoId = JUndefined\<rparr>"

section \<open>The tracker's invariant and sample data\<close>

text \<open>The tracked-deployment object has distinct keys, as every JavaScript object has.
  The invariant holds of a new tracker and every operation keeps it.\<close>

definition tracker_inv :: "DeploymentTracker \<Rightarrow> bool" where
  "tracker_inv t = distinct (map fst (trackedDeployments t))"

definition empty_env :: env where
  "empty_env = \<lparr>tree_at = (\<lambda>p. None), path_join = join_with ''/'', JSON_parse = (\<lambda>s. None)\<rparr>"

definition sample_tracker :: DeploymentTracker where
  "sample_tracker =
     \<lparr>projectRoot = ''/project'',
      compiledArtifacts = [sample_artifact ''IEmpty'' ''0x'', sample_artifact ''Counter'' ''0x6001''],
      trackedDeployments = [],
      pendingTxs = Map.empty\<rparr>"

section \<open>Counting the files of a directory tree\<close>













section \<open>The artifact aggregator\<close>

text \<open>
  The body of \<open>artifactLoader\<close> (server module, lines 144-149) as a function of the two
  values it obtains: the result of \<open>loadIgnitionArtifacts\<close> (\<open>None\<close> for \<open>null\<close>) and
  the result of \<open>tracker.getArtifacts()\<close>. \<open>combined\<close> is the object spread of line 147.
\<close>

definition or_empty :: "AddressMap option \<Rightarrow> AddressMap" where
  "or_empty structured = (case structured of None \<Rightarrow> [] | Some m \<Rightarrow> m)"

definition combined :: "AddressMap \<Rightarrow> AddressMap \<Rightarrow> AddressMap" where
  "combined ignitionArtifacts trackedArtifacts =
     object_spread (object_spread [] ignitionArtifacts) trackedArtifacts"

definition aggregate :: "AddressMap option \<Rightarrow> AddressMap \<Rightarrow> AddressMap option" where
  "aggregate structured trackedArtifacts =
     (let ignitionArtifacts = or_empty structured;
          c = combined ignitionArtifacts trackedArtifacts
      in if length (Object_keys c) > 0 then Some c else None)"

text \<open>The entry a key is bound to in the aggregator's result; \<open>null\<close> binds no key.\<close>

definition bound_to :: "AddressMap option \<Rightarrow> string \<Rightarrow> jsval option" where
  "bound_to r k = (case r of None \<Rightarrow> None | Some m \<Rightarrow> map_of m k)"

section \<open>The structured deployment records (artifacts.ts)\<close>

text \<open>\<open>findIgnitionDeployment\<close> (lines 24-43); \<open>CHAIN_ID\<close> is 31337.\<close>

definition findIgnitionDeployment :: "env \<Rightarrow> string \<Rightarrow> string option" where
  "findIgnitionDeployment e root =
     (let deploymentPath = path_join e [root, ''ignition'', ''deployments'', ''chain-31337''];
          deployedAddressesPath = path_join e [deploymentPath, ''deployed_addresses.json'']
      in if existsSync e deployedAddressesPath then Some deploymentPath else None)"

text \<open>\<open>Object.entries\<close>: throws on \<open>null\<close>; an array and a string list their indices, a
  number and a boolean have no entries.\<close>

fun Object_entries :: "jsval \<Rightarrow> error + props" where
  "Object_entries JUndefined = Inl TypeError"
| "Object_entries JNull = Inl TypeError"
| "Object_entries (JObj ps) = Inr ps"
| "Object_entries (JArr xs) = Inr (zip (map show_nat [0..<length xs]) xs)"
| "Object_entries (JStr s) = Inr (zip (map show_nat [0..<length s]) (map (\<lambda>c. JStr [c]) s))"
| "Object_entries (JBool b) = Inr []"
| "Object_entries (JNum n) = Inr []"

text \<open>"Build contract name to address mapping" (lines 65-72): the segment after the
  first \<open>#\<close> of each key, when there is one and it is not empty, is bound to the
  address; a later entry overwrites an earlier one of the same contract name.\<close>

definition contractDeployments :: "props \<Rightarrow> props" where
  "contractDeployments entries =
     foldl (\<lambda>cd (moduleContract, address).
              case split_on CHR ''#'' moduleContract of
                m # cname # others \<Rightarrow> if cname \<noteq> [] then set_prop cd cname address else cd
              | _ \<Rightarrow> cd)
           [] entries"

text \<open>The members an ordinary object inherits from \<open>Object.prototype\<close>.\<close>

definition Object_prototype_names :: "string list" where
  "Object_prototype_names =
     [''constructor'', ''__defineGetter__'', ''__defineSetter__'', ''hasOwnProperty'',
      ''__lookupGetter__'', ''__lookupSetter__'', ''isPrototypeOf'', ''propertyIsEnumerable'',
      ''toString'', ''valueOf'', ''__proto__'', ''toLocaleString'']"

text \<open>\<open>contractDeployments[key]\<close>: the own property if there is one; \<open>None\<close> for an
  inherited member of \<open>Object.prototype\<close>, which is truthy and not a string;
  \<open>undefined\<close> otherwise.\<close>

definition lookup_deployment :: "props \<Rightarrow> string \<Rightarrow> jsval option" where
  "lookup_deployment cd k =
     (case map_of cd k of
        Some v \<Rightarrow> Some v
      | None \<Rightarrow> if k \<in> set Object_prototype_names then None else Some JUndefined)"

text \<open>"Try to load build info" of \<open>loadArtifacts\<close> (lines 117-132).\<close>

definition attachBuildInfo_ignition :: "env \<Rightarrow> string \<Rightarrow> jsval \<Rightarrow> props \<Rightarrow> error + props" where
  "attachBuildInfo_ignition e buildInfoDir buildId artifactData =
     (if truthy buildId \<and> existsSync e buildInfoDir
      then (case ToString buildId of
              Inl err \<Rightarrow> Inl err
            | Inr idText \<Rightarrow>
                (let buildInfoPath = path_join e [buildInfoDir, idText @ ''.json'']
                 in if existsSync e buildInfoPath
                    then (case try_read_json e buildInfoPath of
                            Some info \<Rightarrow> Inr (set_prop artifactData ''buildInfo'' info)
                          | None \<Rightarrow> Inr artifactData)
                    else Inr artifactData))
      else Inr artifactData)"

text \<open>"Try to load source code" of \<open>loadArtifacts\<close> (lines 134-147).\<close>

definition attachSourceCode_ignition :: "env \<Rightarrow> string \<Rightarrow> jsval \<Rightarrow> props \<Rightarrow> error + props" where
  "attachSourceCode_ignition e contractsDir srcName artifactData =
     (if truthy srcName \<and> existsSync e contractsDir
      then (case srcName of
              JStr s \<Rightarrow>
                (case pop (split_on CHR ''/'' s) of
                   None \<Rightarrow> Inr artifactData
                 | Some sourceFileName \<Rightarrow>
                     if sourceFileName \<noteq> []
                     then (let sourcePath = path_join e [contractsDir, sourceFileName]
                           in if existsSync e sourcePath
                              then (case readFileSync e sourcePath of
                                      Some text \<Rightarrow> Inr (set_prop artifactData ''sourceCode'' (JStr text))
                                    | None \<Rightarrow> Inr artifactData)
                              else Inr artifactData)
                     else Inr artifactData)
            | _ \<Rightarrow> Inl TypeError)
      else Inr artifactData)"

text \<open>
  The body of the loop over the artifact files (lines 91-151) for one file name:
  \<open>Inr\<close> the address map after the iteration (unchanged on \<open>continue\<close>), \<open>Inl\<close> the
  exception that leaves \<open>loadArtifacts\<close>. Only the parse is inside a \<open>try\<close>. An address
  that is truthy and not a string ends in the TypeError of
  \<open>deployedAddress.toLowerCase()\<close>.
\<close>

definition loadArtifactFile ::
    "env \<Rightarrow> string \<Rightarrow> string \<Rightarrow> string \<Rightarrow> props \<Rightarrow> AddressMap \<Rightarrow> string \<Rightarrow> error + AddressMap" where
  "loadArtifactFile e artifactsDir buildInfoDir contractsDir cd addressMap artifactFile =
     (let artifactPath = path_join e [artifactsDir, artifactFile]
      in case try_read_json e artifactPath of
           None \<Rightarrow> Inr addressMap
         | Some artifact \<Rightarrow>
             if artifact = JNull \<or> artifact = JUndefined then Inl TypeError
             else
               (let cname = own_prop artifact ''contractName''
                in if \<not> truthy cname then Inr addressMap
                   else
                     (case ToString cname of
                        Inl err \<Rightarrow> Inl err
                      | Inr key \<Rightarrow>
                          (case lookup_deployment cd key of
                             None \<Rightarrow> Inl TypeError
                           | Some deployedAddress \<Rightarrow>
                               if \<not> truthy deployedAddress then Inr addressMap
                               else
                                 (let artifactData =
                                        [(''abi'', if truthy (own_prop artifact ''abi'')
                                                   then own_prop artifact ''abi'' else JArr []),
                                         (''contractName'', cname),
                                         (''sourceName'', own_prop artifact ''sourceName''),
                                         (''buildInfoId'', own_prop artifact ''buildInfoId''),
                                         (''deployments'', JArr [deployedAddress])]
                                  in case attachBuildInfo_ignition e buildInfoDir
                                            (own_prop artifact ''buildInfoId'') artifactData of
                                       Inl err \<Rightarrow> Inl err
                                     | Inr data1 \<Rightarrow>
                                         (case attachSourceCode_ignition e contractsDir
                                                 (own_prop artifact ''sourceName'') data1 of
                                            Inl err \<Rightarrow> Inl err
                                          | Inr data2 \<Rightarrow>
                                              (case deployedAddress of
                                                 JStr a \<Rightarrow>
                                                   Inr (set_prop addressMap (toLowerCase a) (JObj data2))
                                               | _ \<Rightarrow> Inl TypeError)))))))"

text \<open>The \<open>for\<close> loop of line 91: it stops at the first exception.\<close>

fun loadArtifactFiles ::
    "env \<Rightarrow> string \<Rightarrow> string \<Rightarrow> string \<Rightarrow> props \<Rightarrow> string list \<Rightarrow> AddressMap \<Rightarrow> error + AddressMap" where
  "loadArtifactFiles e artifactsDir buildInfoDir contractsDir cd [] addressMap = Inr addressMap"
| "loadArtifactFiles e artifactsDir buildInfoDir contractsDir cd (artifactFile # rest) addressMap =
     (case loadArtifactFile e artifactsDir buildInfoDir contractsDir cd addressMap artifactFile of
        Inl err \<Rightarrow> Inl err
      | Inr addressMap' \<Rightarrow>
          loadArtifactFiles e artifactsDir buildInfoDir contractsDir cd rest addressMap')"

text \<open>\<open>loadArtifacts\<close> (lines 45-154). The two \<open>console.warn\<close> calls print and change
  nothing else.\<close>

definition loadArtifacts :: "env \<Rightarrow> string \<Rightarrow> string \<Rightarrow> error + AddressMap" where
  "loadArtifacts e deploymentPath root =
     (let deployedAddressesPath = path_join e [deploymentPath, ''deployed_addresses.json'']
      in if \<not> existsSync e deployedAddressesPath then Inr []
         else
           (case readFileSync e deployedAddressesPath of
              None \<Rightarrow> Inl IOError
            | Some text \<Rightarrow>
                (case JSON_parse e text of
                   None \<Rightarrow> Inl SyntaxError
                 | Some deployedAddresses \<Rightarrow>
                     (case Object_entries deployedAddresses of
                        Inl err \<Rightarrow> Inl err
                      | Inr entries \<Rightarrow>
                          (let cd = contractDeployments entries;
                               artifactsDir = path_join e [deploymentPath, ''artifacts'']
                           in if \<not> existsSync e artifactsDir then Inr []
                              else
                                (case readdirSync e artifactsDir of
                                   None \<Rightarrow> Inl IOError
                                 | Some names \<Rightarrow>
                                     (let artifactFiles = filter (\<lambda>f. endsWith f ''.json'') names;
                                          buildInfoDir = path_join e [deploymentPath, ''build-info''];
                                          contractsDir = path_join e [root, ''contracts'']
                                      in loadArtifactFiles e artifactsDir buildInfoDir contractsDir
                                           cd artifactFiles [])))))))"

text \<open>
  \<open>loadIgnitionArtifacts\<close> (lines 156-181). The second argument and the second result
  are the module-level flag \<open>hasLoggedArtifacts\<close>; the console output is not modelled.
  \<open>Inr None\<close> is the \<open>null\<close> result; \<open>!deploymentPath\<close> also holds of an empty path
  string.
\<close>

definition loadIgnitionArtifacts :: "env \<Rightarrow> string \<Rightarrow> bool \<Rightarrow> (error + AddressMap option) \<times> bool" where
  "loadIgnitionArtifacts e root hasLoggedArtifacts =
     (case findIgnitionDeployment e root of
        None \<Rightarrow> (Inr None, hasLoggedArtifacts)
      | Some deploymentPath \<Rightarrow>
          if deploymentPath = [] then (Inr None, hasLoggedArtifacts)
          else
            (case loadArtifacts e deploymentPath root of
               Inl err \<Rightarrow> (Inl err, True)
             | Inr result \<Rightarrow> (Inr (Some result), True)))"

text \<open>\<open>artifactLoader\<close> (server module, lines 144-149) with its two calls; an exception of
  \<open>loadIgnitionArtifacts\<close> leaves the loader.\<close>

definition artifactLoader ::
    "env \<Rightarrow> string \<Rightarrow> DeploymentTracker \<Rightarrow> bool \<Rightarrow> (error + AddressMap option) \<times> bool" where
  "artifactLoader e root tracker hasLoggedArtifacts =
     (case loadIgnitionArtifacts e root hasLoggedArtifacts of
        (Inl err, logged) \<Rightarrow> (Inl err, logged)
      | (Inr structured, logged) \<Rightarrow> (Inr (aggregate structured (getArtifacts tracker)), logged))"



section \<open>Serialising to JSON\<close>

definition hexdigit :: "nat \<Rightarrow> char" where
  "hexdigit n = (if n < 10 then char_of (48 + n) else char_of (87 + n))"

text \<open>\<open>QuoteJSONString\<close>: the two-character escapes of backspace, tab, line feed, form
  feed, carriage return, the double quote and the backslash; \<open>\u00xx\<close> for the other
  control characters; every other character as it is.\<close>

definition json_escape :: "char \<Rightarrow> string" where
  "json_escape c =
     (let n = (of_char c :: nat)
      in if n = 8 then [CHR 0x5C, CHR ''b'']
         else if n = 9 then [CHR 0x5C, CHR ''t'']
         else if n = 10 then [CHR 0x5C, CHR ''n'']
         else if n = 12 then [CHR 0x5C, CHR ''f'']
         else if n = 13 then [CHR 0x5C, CHR ''r'']
         else if n = 34 then [CHR 0x5C, CHR 0x22]
         else if n = 92 then [CHR 0x5C, CHR 0x5C]
         else if n < 32
           then [CHR 0x5C, CHR ''u'', CHR ''0'', CHR ''0'', hexdigit (n div 16), hexdigit (n mod 16)]
         else [c])"

definition QuoteJSONString :: "string \<Rightarrow> string" where
  "QuoteJSONString s = CHR 0x22 # concat (map json_escape s) @ [CHR 0x22]"

text \<open>\<open>SerializeJSONProperty\<close>: \<open>None\<close> is the \<open>undefined\<close> result, for which an object
  omits the property and an array writes \<open>null\<close>.\<close>

fun SerializeJSONProperty :: "jsval \<Rightarrow> string option" where
  "SerializeJSONProperty JUndefined = None"
| "SerializeJSONProperty JNull = Some ''null''"
| "SerializeJSONProperty (JBool b) = Some (if b then ''true'' else ''false'')"
| "SerializeJSONProperty (JNum n) = Some (show_int n)"
| "SerializeJSONProperty (JStr s) = Some (QuoteJSONString s)"
| "SerializeJSONProperty (JArr xs) =
     Some (''['' @ join_with '',''
                     (map (\<lambda>x. case SerializeJSONProperty x of None \<Rightarrow> ''null'' | Some t \<Rightarrow> t) xs)
           @ '']'')"
| "SerializeJSONProperty (JObj ps) =
     Some (''{'' @ join_with '',''
                     (concat (map (\<lambda>(k, v). case SerializeJSONProperty v of
                                                None \<Rightarrow> []
                                              | Some t \<Rightarrow> [QuoteJSONString k @ '':'' @ t]) ps))
           @ ''}'')"

text \<open>\<open>JSON.stringify\<close> of an object, which is always a string.\<close>

definition JSON_stringify_object :: "props \<Rightarrow> string" where
  "JSON_stringify_object ps = (case SerializeJSONProperty (JObj ps) of Some s \<Rightarrow> s | None \<Rightarrow> [])"

section \<open>String replacement\<close>

text \<open>
  Case-insensitive matching of a regular expression without the \<open>u\<close> flag compares
  canonicalised characters: the upper-case form for a-z and for the accented small
  letters U+00E0..U+00FE (without the division sign U+00F7); any other character
  below 256 stays or moves out of the range, and equals no character of the pattern.
\<close>

definition canonicalize :: "char \<Rightarrow> char" where
  "canonicalize c =
     (let n = (of_char c :: nat)
      in if (97 \<le> n \<and> n \<le> 122) \<or> (224 \<le> n \<and> n \<le> 254 \<and> n \<noteq> 247)
         then char_of (n - 32) else c)"

text \<open>The pattern \<open>/<\/script>/i\<close> matches at the start of \<open>s\<close>.\<close>

definition script_close :: string where
  "script_close = ''</script>''"

definition script_close_at :: "string \<Rightarrow> bool" where
  "script_close_at s =
     (map canonicalize (take (length script_close) s) = map canonicalize script_close)"

text \<open>The replacement text of line 225, \<open><\/script>\<close>: it has no \<open>$\<close> pattern.\<close>

definition escaped_script_close :: string where
  "escaped_script_close = CHR ''<'' # CHR 0x5C # ''/script>''"

text \<open>\<open>s.replace(/<\/script>/gi, "<\\/script>")\<close>: every match, left to right, matches
  not overlapping.\<close>

function escapeScriptClose :: "string \<Rightarrow> string" where
  "escapeScriptClose [] = []"
| "escapeScriptClose (c # cs) =
     (if script_close_at (c # cs)
      then escaped_script_close @ escapeScriptClose (drop (length script_close) (c # cs))
      else c # escapeScriptClose cs)"
  by pat_completeness auto
termination
  by (relation "measure length") (auto simp: script_close_def)

text \<open>\<open>s.indexOf(pat)\<close>: the first position at which \<open>pat\<close> occurs, \<open>None\<close> for -1.\<close>

fun indexOf :: "string \<Rightarrow> string \<Rightarrow> nat option" where
  "indexOf [] pat = (if pat = [] then Some 0 else None)"
| "indexOf (c # cs) pat =
     (if startsWith (c # cs) pat then Some 0
      else (case indexOf cs pat of None \<Rightarrow> None | Some i \<Rightarrow> Some (Suc i)))"

text \<open>
  \<open>GetSubstitution\<close> for a string pattern (no captures): in the replacement text
  \<open>$$\<close> stands for a dollar sign, \<open>$&\<close> for the matched text, \<open>$`\<close> for the text before
  the match and \<open>$'\<close> for the text after it; every other character, a dollar sign
  before anything else included, stands for itself.
\<close>

fun GetSubstitution :: "string \<Rightarrow> string \<Rightarrow> string \<Rightarrow> string \<Rightarrow> string" where
  "GetSubstitution matched preceding following [] = []"
| "GetSubstitution matched preceding following [c] = [c]"
| "GetSubstitution matched preceding following (c # d # rest) =
     (if c = CHR ''$'' \<and> d = CHR ''$'' then CHR ''$'' # GetSubstitution matched preceding following rest
      else if c = CHR ''$'' \<and> d = CHR ''&'' then matched @ GetSubstitution matched preceding following rest
      else if c = CHR ''$'' \<and> d = CHR 0x60 then preceding @ GetSubstitution matched preceding following rest
      else if c = CHR ''$'' \<and> d = CHR 0x27 then following @ GetSubstitution matched preceding following rest
      else c # GetSubstitution matched preceding following (d # rest))"

text \<open>\<open>s.replace(pat, replacement)\<close> with a string pattern and a string replacement:
  the first occurrence only, the replacement text expanded by \<open>GetSubstitution\<close>.\<close>

definition String_replace :: "string \<Rightarrow> string \<Rightarrow> string \<Rightarrow> string" where
  "String_replace s pat replacement =
     (case indexOf s pat of
        None \<Rightarrow> s
      | Some pos \<Rightarrow>
          take pos s
          @ GetSubstitution pat (take pos s) (drop (pos + length pat) s) replacement
          @ drop (pos + length pat) s)"

section \<open>The injection of the artifacts into the page (webapp.ts)\<close>

text \<open>The template of lines 227-231 around the escaped string literal.\<close>

definition scriptTag :: "string \<Rightarrow> string" where
  \<open>scriptTag safeJsonString =
     ''<script>''
     @ ''try{localStorage.setItem("OPENSCAN_ARTIFACTS_JSON_V1",'' @ safeJsonString @ '')}''
     @ ''catch(e){console.warn("[openscan] Failed to inject artifacts:",e)}''
     @ ''</script>''\<close>

text \<open>Lines 222-231: the double encoding, the escaping and the template.\<close>

definition artifactsScript :: "AddressMap \<Rightarrow> string" where
  "artifactsScript artifacts =
     (let jsonString = QuoteJSONString (JSON_stringify_object artifacts);
          safeJsonString = escapeScriptClose jsonString
      in scriptTag safeJsonString)"

text \<open>
  \<open>injectArtifactsScript\<close> (lines 203-234). The first argument is \<open>this.artifactLoader\<close>
  with the outcome of calling it: \<open>None\<close> when there is no loader, \<open>Some (Inl err)\<close>
  when the call throws, \<open>Some (Inr None)\<close> when it returns \<open>null\<close>.
\<close>

definition injectArtifactsScript :: "(error + AddressMap option) option \<Rightarrow> string \<Rightarrow> string" where
  "injectArtifactsScript loader html =
     (case loader of
        None \<Rightarrow> html
      | Some (Inl err) \<Rightarrow> html
      | Some (Inr None) \<Rightarrow> html
      | Some (Inr (Some artifacts)) \<Rightarrow>
          if length (Object_keys artifacts) = 0 then html
          else String_replace html ''<body>'' (''<body>'' @ artifactsScript artifacts))"

text \<open>The number of positions of a text at which \<open>/<\/script>/i\<close> matches.\<close>

fun count_script_close :: "string \<Rightarrow> nat" where
  "count_script_close [] = 0"
| "count_script_close (c # cs) =
     (if script_close_at (c # cs) then 1 else 0) + count_script_close cs"

text \<open>A character that can stand in a match of \<open>/<\/script>/i\<close>.\<close>

definition pattern_char :: "char \<Rightarrow> bool" where
  "pattern_char c = (canonicalize c \<in> set (map canonicalize script_close))"

text \<open>\<open>pat\<close> occurs in \<open>s\<close>.\<close>

definition occurs_in :: "string \<Rightarrow> string \<Rightarrow> bool" where
  "occurs_in pat s = (\<exists>u v. s = u @ pat @ v)"

text \<open>A page whose head loads a script, and a tracked deployment whose source code
  holds a closing script tag and the characters \<open>$`\<close>.\<close>

definition sample_page :: string where
  \<open>sample_page =
     ''<html><head><script src="/app.js"></script></head><body><div id="root"></div></body></html>''\<close>

definition dollar_map :: AddressMap where
  "dollar_map =
     [(''0xabc'',
       JObj [(''abi'', JArr []), (''contractName'', JStr ''A''),
             (''sourceName'', JStr ''contracts/A.sol''), (''buildInfoId'', JUndefined),
             (''deployments'', JArr [JStr ''0xAbC'']),
             (''sourceCode'', JStr (''// </script> '' @ [CHR ''$'', CHR 0x60]))])]"

definition plain_map :: AddressMap where
  "plain_map =
     [(''0xabc'',
       JObj [(''abi'', JArr []), (''contractName'', JStr ''A''),
             (''sourceName'', JStr ''contracts/A.sol''), (''buildInfoId'', JUndefined),
             (''deployments'', JArr [JStr ''0xAbC'']),
             (''sourceCode'', JStr ''// </script> </SCRIPT>'')])]"

section \<open>Object identity: what \<open>getArtifacts\<close> returns\<close>

text \<open>
  A store for the objects involved in \<open>getArtifacts\<close>. An AddressMap object holds, for
  each of its keys, a reference to an entry object; an entry object holds its
  properties. \<open>next_ref\<close> is the next unused reference. The tracker's
  \<open>trackedDeployments\<close> field is a reference to an AddressMap object.
\<close>

type_synonym ref = nat

record store =
  map_objs :: "ref \<rightharpoonup> (string \<times> ref) list"
  entry_objs :: "ref \<rightharpoonup> props"
  next_ref :: ref

text \<open>\<open>{ ...this.trackedDeployments }\<close> on the store (line 150): a new object that
  receives the own properties of the tracked object, that is, the same references.
  The result is the new object's reference and the store after the call.\<close>

definition getArtifacts_store :: "store \<Rightarrow> ref \<Rightarrow> ref \<times> store" where
  "getArtifacts_store h tracked =
     (let copy = object_spread [] (case map_objs h tracked of Some ps \<Rightarrow> ps | None \<Rightarrow> [])
      in (next_ref h, h\<lparr>map_objs := (map_objs h)(next_ref h \<mapsto> copy), next_ref := Suc (next_ref h)\<rparr>))"





text \<open>The AddressMap an object of the store denotes: each key with the contents of the
  entry object it refers to.\<close>

definition read_map :: "store \<Rightarrow> ref \<Rightarrow> AddressMap" where
  "read_map h r =
     map (\<lambda>p. (fst p, case entry_objs h (snd p) of Some ps \<Rightarrow> JObj ps | None \<Rightarrow> JUndefined))
         (case map_objs h r of Some ps \<Rightarrow> ps | None \<Rightarrow> [])"



section \<open>Properties of the matcher\<close>

lemma startsWith_prefix: "startsWith s p \<longleftrightarrow> prefix p s"
  unfolding startsWith_def
  by (metis prefix_def append_take_drop_id append_eq_conv_conj)

lemma length_toLowerCase: "length (toLowerCase s) = length s"
  by (simp add: toLowerCase_def)

lemma toLowerCase_append: "toLowerCase (a @ b) = toLowerCase a @ toLowerCase b"
  by (simp add: toLowerCase_def)

lemma findMatchingArtifact_step:
  "bytecode_is_string a \<Longrightarrow>
   findMatchingArtifact (a # rest) d =
     (if prefix_match d a then Inr (Some a) else findMatchingArtifact rest d)"
  by (auto simp: bytecode_is_string_def prefix_match_def startsWith_prefix length_toLowerCase
           split: jsval.splits)

lemma findMatchingArtifact_none:
  "list_all bytecode_is_string arts \<Longrightarrow> list_all (\<lambda>a. \<not> prefix_match d a) arts \<Longrightarrow>
   findMatchingArtifact arts d = Inr None"
  by (induction arts) (simp_all add: findMatchingArtifact_step del: findMatchingArtifact.simps(2))

lemma findMatchingArtifact_first:
  "list_all bytecode_is_string arts \<Longrightarrow> i < length arts \<Longrightarrow> prefix_match d (arts ! i) \<Longrightarrow>
   (\<forall>j<i. \<not> prefix_match d (arts ! j)) \<Longrightarrow>
   findMatchingArtifact arts d = Inr (Some (arts ! i))"
proof (induction arts arbitrary: i)
  case Nil
  then show ?case by simp
next
  case (Cons a arts)
  show ?case
  proof (cases i)
    case 0
    with Cons.prems show ?thesis
      by (simp add: findMatchingArtifact_step del: findMatchingArtifact.simps(2))
  next
    case (Suc k)
    from Cons.prems Suc have "\<not> prefix_match d a" by auto
    moreover from Cons.prems Suc have "\<forall>j<k. \<not> prefix_match d (arts ! j)" by auto
    ultimately show ?thesis
      using Cons.prems Suc Cons.IH [of k]
      by (simp add: findMatchingArtifact_step del: findMatchingArtifact.simps(2))
  qed
qed

lemma first_index_exists:
  "\<exists>a\<in>set xs. P a \<Longrightarrow> \<exists>i<length xs. P (xs ! i) \<and> (\<forall>j<i. \<not> P (xs ! j))"
proof (induction xs)
  case Nil
  then show ?case by simp
next
  case (Cons x xs)
  show ?case
  proof (cases "P x")
    case True
    then have "0 < length (x # xs) \<and> P ((x # xs) ! 0) \<and> (\<forall>j<0. \<not> P ((x # xs) ! j))" by simp
    then show ?thesis by blast
  next
    case False
    with Cons.prems have "\<exists>a\<in>set xs. P a" by auto
    then obtain i where i: "i < length xs" "P (xs ! i)" "\<forall>j<i. \<not> P (xs ! j)"
      using Cons.IH by blast
    have "\<forall>j<Suc i. \<not> P ((x # xs) ! j)"
    proof (intro allI impI)
      fix j assume "j < Suc i"
      then show "\<not> P ((x # xs) ! j)" using False i(3) by (cases j) auto
    qed
    with i(1,2) have "Suc i < length (x # xs) \<and> P ((x # xs) ! Suc i) \<and> (\<forall>j<Suc i. \<not> P ((x # xs) ! j))"
      by simp
    then show ?thesis by blast
  qed
qed

text \<open>
  C1. For every creation-data string and every list of compiled artifacts (each with a
  string bytecode, as the interface declares), \<open>findMatchingArtifact\<close> returns the first
  artifact in scan order whose bytecode is longer than two characters and is,
  compared case-insensitively, a prefix of the creation data; it returns no match
  exactly when no candidate satisfies that condition. A candidate whose bytecode is
  exactly \<open>0x\<close> satisfies it for no creation data and is never returned, and a
  candidate whose bytecode is longer than two characters satisfies it for its bytecode
  followed by any suffix (constructor arguments), for which a match is returned.
\<close>

theorem findMatchingArtifact_first_prefix_match:
  assumes typed: "list_all bytecode_is_string arts"
  shows "(\<exists>r. findMatchingArtifact arts creationData = Inr r \<and>
            (case r of
               None \<Rightarrow> list_all (\<lambda>a. \<not> prefix_match creationData a) arts
             | Some a \<Rightarrow> (\<exists>i<length arts. arts ! i = a \<and> prefix_match creationData a \<and>
                           (\<forall>j<i. \<not> prefix_match creationData (arts ! j)))))
       \<and> (\<forall>a d. bytecode a = JStr ''0x'' \<longrightarrow> \<not> prefix_match d a)
       \<and> (\<forall>a. findMatchingArtifact arts creationData = Inr (Some a) \<longrightarrow> bytecode a \<noteq> JStr ''0x'')
       \<and> (\<forall>a b args. bytecode a = JStr b \<and> 2 < length b \<longrightarrow> prefix_match (b @ args) a)
       \<and> (\<forall>a b args. a \<in> set arts \<and> bytecode a = JStr b \<and> 2 < length b \<longrightarrow>
              (\<exists>m. findMatchingArtifact arts (b @ args) = Inr (Some m)))"
proof -
  have first: "\<exists>r. findMatchingArtifact arts d = Inr r \<and>
            (case r of
               None \<Rightarrow> list_all (\<lambda>a. \<not> prefix_match d a) arts
             | Some a \<Rightarrow> (\<exists>i<length arts. arts ! i = a \<and> prefix_match d a \<and>
                           (\<forall>j<i. \<not> prefix_match d (arts ! j))))" for d
  proof (cases "\<exists>a\<in>set arts. prefix_match d a")
    case True
    then obtain i where i: "i < length arts" "prefix_match d (arts ! i)"
        "\<forall>j<i. \<not> prefix_match d (arts ! j)"
      using first_index_exists [of arts "prefix_match d"] by blast
    then have "findMatchingArtifact arts d = Inr (Some (arts ! i))"
      using findMatchingArtifact_first [OF typed] by blast
    with i show ?thesis by auto
  next
    case False
    then have none: "list_all (\<lambda>a. \<not> prefix_match d a) arts"
      by (simp add: list_all_iff)
    then have "findMatchingArtifact arts d = Inr None"
      using findMatchingArtifact_none [OF typed] by blast
    with none show ?thesis by simp
  qed
  have empty: "\<forall>a d. bytecode a = JStr ''0x'' \<longrightarrow> \<not> prefix_match d a"
    by (simp add: prefix_match_def)
  have never: "\<forall>a. findMatchingArtifact arts creationData = Inr (Some a) \<longrightarrow> bytecode a \<noteq> JStr ''0x''"
  proof (intro allI impI)
    fix a assume r: "findMatchingArtifact arts creationData = Inr (Some a)"
    from first [of creationData] r have "prefix_match creationData a" by auto
    with empty show "bytecode a \<noteq> JStr ''0x''" by blast
  qed
  have ext: "\<forall>a b args. bytecode a = JStr b \<and> 2 < length b \<longrightarrow> prefix_match (b @ args) a"
    by (simp add: prefix_match_def toLowerCase_append)
  have found: "\<forall>a b args. a \<in> set arts \<and> bytecode a = JStr b \<and> 2 < length b \<longrightarrow>
              (\<exists>m. findMatchingArtifact arts (b @ args) = Inr (Some m))"
  proof (intro allI impI)
    fix a b args assume a: "a \<in> set arts \<and> bytecode a = JStr b \<and> 2 < length b"
    with ext have m: "prefix_match (b @ args) a" by blast
    from first [of "b @ args"] obtain r where r: "findMatchingArtifact arts (b @ args) = Inr r"
        "case r of None \<Rightarrow> list_all (\<lambda>a. \<not> prefix_match (b @ args) a) arts | Some a \<Rightarrow> True"
      by (auto split: option.splits)
    show "\<exists>m. findMatchingArtifact arts (b @ args) = Inr (Some m)"
    proof (cases r)
      case None
      with r(2) a m show ?thesis by (simp add: list_all_iff)
    next
      case (Some x)
      with r(1) show ?thesis by blast
    qed
  qed
  from first [of creationData] empty never ext found show ?thesis by blast
qed

theorem findMatchingArtifact_first_prefix_match_witness:
  "list_all bytecode_is_string
     [sample_artifact ''IEmpty'' ''0x'', sample_artifact ''Counter'' ''0x6001'']
   \<and> findMatchingArtifact
       [sample_artifact ''IEmpty'' ''0x'', sample_artifact ''Counter'' ''0x6001'']
       ''0x6001DEADBEEF''
     = Inr (Some (sample_artifact ''Counter'' ''0x6001''))"
proof -
  have typed: "list_all bytecode_is_string
      [sample_artifact ''IEmpty'' ''0x'', sample_artifact ''Counter'' ''0x6001'']"
    by (simp add: bytecode_is_string_def sample_artifact_def)
  have res: "findMatchingArtifact
      [sample_artifact ''IEmpty'' ''0x'', sample_artifact ''Counter'' ''0x6001'']
      ''0x6001DEADBEEF''
    = Inr (Some (sample_artifact ''Counter'' ''0x6001''))"
    by code_simp
  from typed res findMatchingArtifact_first_prefix_match [OF typed, of "''0x6001DEADBEEF''"]
  show ?thesis by blast
qed

section \<open>Properties of property lists\<close>

lemma map_of_define_prop: "map_of (define_prop ps k v) = (map_of ps)(k \<mapsto> v)"
  by (induction ps k v rule: define_prop.induct) auto

lemma keys_define_prop: "set (map fst (define_prop ps k v)) = insert k (set (map fst ps))"
  by (induction ps k v rule: define_prop.induct) auto

lemma distinct_define_prop:
  "distinct (map fst ps) \<Longrightarrow> distinct (map fst (define_prop ps k v))"
proof (induction ps k v rule: define_prop.induct)
  case (1 k v)
  then show ?case by simp
next
  case (2 k' v' ps k v)
  then show ?case
    using keys_define_prop [of ps k v] by (auto simp del: set_map)
qed

lemma define_prop_fresh: "k \<notin> set (map fst ps) \<Longrightarrow> define_prop ps k v = ps @ [(k, v)]"
  by (induction ps k v rule: define_prop.induct) auto

lemma object_spread_distinct:
  "distinct (map fst (target @ source)) \<Longrightarrow> object_spread target source = target @ source"
proof (induction source arbitrary: target)
  case Nil
  then show ?case by (simp add: object_spread_def)
next
  case (Cons p source)
  obtain k v where p: "p = (k, v)" by (cases p)
  from Cons.prems p have fresh: "k \<notin> set (map fst target)" by auto
  from Cons.prems p have "distinct (map fst ((target @ [(k, v)]) @ source))" by auto
  then have "object_spread (target @ [(k, v)]) source = (target @ [(k, v)]) @ source"
    by (rule Cons.IH)
  then show ?case
    using p fresh by (simp add: object_spread_def define_prop_fresh)
qed

lemma map_of_object_spread:
  "distinct (map fst source) \<Longrightarrow>
   map_of (object_spread target source) = map_of target ++ map_of source"
proof (induction source arbitrary: target)
  case Nil
  then show ?case by (simp add: object_spread_def)
next
  case (Cons p source)
  obtain k v where p: "p = (k, v)" by (cases p)
  from Cons.prems p have fresh: "k \<notin> dom (map_of source)" and d: "distinct (map fst source)"
    by (auto simp: dom_map_of_conv_image_fst)
  have "object_spread target (p # source) = object_spread (define_prop target k v) source"
    by (simp add: object_spread_def p)
  also have "map_of \<dots> = map_of (define_prop target k v) ++ map_of source"
    using d by (rule Cons.IH)
  also have "\<dots> = map_of target ++ map_of (p # source)"
    using fresh by (auto simp: map_of_define_prop p map_add_def fun_eq_iff split: option.splits)
  finally show ?case .
qed

section \<open>Properties of the tracker\<close>

text \<open>
  C7. For every transaction hash that is not in the pending map (it was never passed to
  \<open>trackSendTransaction\<close>), \<open>trackDeploymentReceipt\<close> returns the tracker unchanged, the
  tracked deployments and the pending map included, and raises no error.
\<close>

theorem trackDeploymentReceipt_unknown_hash:
  "pendingTxs t txHash = None \<Longrightarrow> trackDeploymentReceipt e t txHash contractAddress = (t, None)"
  by (simp add: trackDeploymentReceipt_def)

lemma getArtifacts_inv: "tracker_inv t \<Longrightarrow> getArtifacts t = trackedDeployments t"
  using object_spread_distinct [of "[]" "trackedDeployments t"]
  by (simp add: getArtifacts_def tracker_inv_def)

lemma attachSourceCode_typed:
  assumes "sourceName a = JStr s"
  shows "\<exists>entry'. attachSourceCode e root (sourceName a) entry = Inr entry' \<and>
           (\<forall>k. k \<noteq> ''sourceCode'' \<longrightarrow> map_of entry' k = map_of entry k)"
  using assms
  by (auto simp: attachSourceCode_def set_prop_def map_of_define_prop Let_def
           split: option.splits)

lemma attachBuildInfo_typed:
  assumes "buildInfoId a = JStr s \<or> buildInfoId a = JUndefined"
  shows "\<exists>entry'. attachBuildInfo e root (buildInfoId a) entry = Inr entry' \<and>
           (\<forall>k. k \<noteq> ''buildInfo'' \<longrightarrow> map_of entry' k = map_of entry k)"
  using assms
  by (auto simp: attachBuildInfo_def set_prop_def map_of_define_prop Let_def
           split: option.splits)

lemma findMatchingArtifact_unique:
  assumes typed: "list_all bytecode_is_string arts"
      and a: "a \<in> set arts" "prefix_match d a"
      and uniq: "\<forall>b\<in>set arts. prefix_match d b \<longrightarrow> b = a"
  shows "findMatchingArtifact arts d = Inr (Some a)"
proof -
  from a have "\<exists>x\<in>set arts. prefix_match d x" by blast
  then obtain i where i: "i < length arts" "prefix_match d (arts ! i)"
      "\<forall>j<i. \<not> prefix_match d (arts ! j)"
    using first_index_exists [of arts "prefix_match d"] by blast
  then have "arts ! i = a" using uniq by simp
  with findMatchingArtifact_first [OF typed i] show ?thesis by simp
qed

lemma well_typed_bytecode: "list_all well_typed arts \<Longrightarrow> list_all bytecode_is_string arts"
  by (simp add: list_all_iff well_typed_def)

text \<open>
  C2. Let the compiled artifacts have the shape the interface declares, let the creation
  data match exactly one of them, and let the lowercased address be an ordinary
  property key. After \<open>trackSendTransaction txHash txData\<close> followed by
  \<open>trackDeploymentReceipt txHash contractAddress\<close> no error is raised, \<open>getArtifacts\<close>
  binds the lowercased address to an entry whose \<open>deployments\<close> field is the one-element
  list of the address as given and whose \<open>contractName\<close> is the matched artifact's,
  every other key of \<open>getArtifacts\<close> is bound as before, and the pending entry of
  \<open>txHash\<close> is removed while every other pending entry stays.
\<close>

theorem track_then_receipt_tracks_deployment:
  assumes typed: "list_all well_typed (compiledArtifacts t)"
      and inv: "tracker_inv t"
      and a: "a \<in> set (compiledArtifacts t)" "prefix_match txData a"
      and uniq: "\<forall>b\<in>set (compiledArtifacts t). prefix_match txData b \<longrightarrow> b = a"
      and addr: "toLowerCase contractAddress \<noteq> ''__proto__''"
  shows "\<exists>t' entry.
           trackDeploymentReceipt e (trackSendTransaction t txHash txData) txHash contractAddress
             = (t', None)
         \<and> map_of (getArtifacts t') (toLowerCase contractAddress) = Some (JObj entry)
         \<and> map_of entry ''deployments'' = Some (JArr [JStr contractAddress])
         \<and> map_of entry ''contractName'' = Some (contractName a)
         \<and> (\<forall>k. k \<noteq> toLowerCase contractAddress \<longrightarrow>
                map_of (getArtifacts t') k = map_of (getArtifacts t) k)
         \<and> pendingTxs t' txHash = None
         \<and> (\<forall>h. h \<noteq> txHash \<longrightarrow> pendingTxs t' h = pendingTxs t h)
         \<and> tracker_inv t'"
proof -
  let ?t0 = "trackSendTransaction t txHash txData"
  let ?t1 = "?t0\<lparr>pendingTxs := (pendingTxs ?t0)(txHash := None)\<rparr>"
  from a(2) have nonempty: "txData \<noteq> []"
    by (auto simp: prefix_match_def toLowerCase_def split: jsval.splits)
  have found: "findMatchingArtifact (compiledArtifacts ?t1) txData = Inr (Some a)"
    using findMatchingArtifact_unique [OF well_typed_bytecode [OF typed] a uniq]
    by (simp add: trackSendTransaction_def)
  from typed a(1) have wt: "well_typed a" by (simp add: list_all_iff)
  then obtain s where s: "sourceName a = JStr s"
    by (auto simp: well_typed_def split: jsval.splits)
  from wt have b: "(\<exists>s. buildInfoId a = JStr s) \<or> buildInfoId a = JUndefined"
    by (auto simp: well_typed_def split: jsval.splits)
  obtain entry1 where e1: "attachSourceCode e (projectRoot ?t1) (sourceName a)
        (new_entry a contractAddress) = Inr entry1"
      "\<forall>k. k \<noteq> ''sourceCode'' \<longrightarrow> map_of entry1 k = map_of (new_entry a contractAddress) k"
    using attachSourceCode_typed [OF s] by blast
  obtain entry2 where e2: "attachBuildInfo e (projectRoot ?t1) (buildInfoId a) entry1 = Inr entry2"
      "\<forall>k. k \<noteq> ''buildInfo'' \<longrightarrow> map_of entry2 k = map_of entry1 k"
    using b attachBuildInfo_typed [of a] by blast
  define t' where "t' = ?t1\<lparr>trackedDeployments :=
       set_prop (trackedDeployments ?t1) (toLowerCase contractAddress) (JObj entry2)\<rparr>"
  have run: "trackDeploymentReceipt e ?t0 txHash contractAddress = (t', None)"
    using nonempty found e1(1) e2(1)
    by (simp add: t'_def trackDeploymentReceipt_def trackSendTransaction_def Let_def)
  have inv': "tracker_inv t'"
    using inv addr
    by (simp add: t'_def tracker_inv_def set_prop_def distinct_define_prop trackSendTransaction_def)
  have "trackedDeployments t' =
      define_prop (trackedDeployments t) (toLowerCase contractAddress) (JObj entry2)"
    using addr by (simp add: t'_def set_prop_def trackSendTransaction_def)
  then have tracked': "getArtifacts t' =
      define_prop (trackedDeployments t) (toLowerCase contractAddress) (JObj entry2)"
    using getArtifacts_inv [OF inv'] by simp
  have dep: "map_of entry2 ''deployments'' = Some (JArr [JStr contractAddress])"
    using e1(2) e2(2) by (simp add: new_entry_def)
  have nm: "map_of entry2 ''contractName'' = Some (contractName a)"
    using e1(2) e2(2) by (simp add: new_entry_def)
  have "map_of (getArtifacts t') (toLowerCase contractAddress) = Some (JObj entry2)"
    by (simp add: tracked' map_of_define_prop)
  moreover have "\<forall>k. k \<noteq> toLowerCase contractAddress \<longrightarrow>
         map_of (getArtifacts t') k = map_of (getArtifacts t) k"
    by (simp add: tracked' map_of_define_prop getArtifacts_inv [OF inv])
  moreover have "pendingTxs t' txHash = None" by (simp add: t'_def)
  moreover have "\<forall>h. h \<noteq> txHash \<longrightarrow> pendingTxs t' h = pendingTxs t h"
    by (simp add: t'_def trackSendTransaction_def)
  ultimately show ?thesis using run dep nm inv' by blast
qed

theorem trackDeploymentReceipt_unknown_hash_witness:
  "pendingTxs sample_tracker ''0x01'' = None
   \<and> trackDeploymentReceipt empty_env sample_tracker ''0x01'' ''0xAbC'' = (sample_tracker, None)"
proof -
  have h: "pendingTxs sample_tracker ''0x01'' = None"
    by (simp add: sample_tracker_def)
  from h trackDeploymentReceipt_unknown_hash [OF h, of empty_env "''0xAbC''"]
  show ?thesis by blast
qed

lemma tracker_inv_trackSendTransaction:
  "tracker_inv t \<Longrightarrow> tracker_inv (trackSendTransaction t txHash txData)"
  by (simp add: tracker_inv_def trackSendTransaction_def)

lemma tracker_inv_trackDeploymentReceipt:
  "tracker_inv t \<Longrightarrow> tracker_inv (fst (trackDeploymentReceipt e t txHash contractAddress))"
  by (auto simp: tracker_inv_def trackDeploymentReceipt_def Let_def set_prop_def
        distinct_define_prop split: option.splits sum.splits)

lemma tracker_inv_new: "tracker_inv (fst (new_DeploymentTracker e root))"
  by (auto simp: tracker_inv_def new_DeploymentTracker_def loadCompiledArtifacts_def Let_def
        split: option.splits fsnode.splits sum.splits)

theorem track_then_receipt_tracks_deployment_witness:
  "list_all well_typed (compiledArtifacts sample_tracker)
   \<and> tracker_inv sample_tracker
   \<and> prefix_match ''0x6001DEADBEEF'' (sample_artifact ''Counter'' ''0x6001'')
   \<and> toLowerCase ''0xAbC'' \<noteq> ''__proto__''
   \<and> getArtifacts (fst (trackDeploymentReceipt empty_env
         (trackSendTransaction sample_tracker ''0xaa'' ''0x6001DEADBEEF'') ''0xaa'' ''0xAbC''))
       = [(''0xabc'', JObj [(''abi'', JArr []), (''contractName'', JStr ''Counter''),
            (''sourceName'', JStr ''contracts/Counter.sol''), (''buildInfoId'', JUndefined),
            (''deployments'', JArr [JStr ''0xAbC''])])]"
proof -
  have typed: "list_all well_typed (compiledArtifacts sample_tracker)"
    by (simp add: sample_tracker_def sample_artifact_def well_typed_def bytecode_is_string_def)
  have inv: "tracker_inv sample_tracker"
    by (simp add: sample_tracker_def tracker_inv_def)
  have a: "sample_artifact ''Counter'' ''0x6001'' \<in> set (compiledArtifacts sample_tracker)"
    by (simp add: sample_tracker_def)
  have m: "prefix_match ''0x6001DEADBEEF'' (sample_artifact ''Counter'' ''0x6001'')"
    by code_simp
  have uniq: "\<forall>b\<in>set (compiledArtifacts sample_tracker).
      prefix_match ''0x6001DEADBEEF'' b \<longrightarrow> b = sample_artifact ''Counter'' ''0x6001''"
    by (simp add: sample_tracker_def sample_artifact_def prefix_match_def)
  have addr: "toLowerCase ''0xAbC'' \<noteq> ''__proto__''"
    by (simp add: toLowerCase_def)
  have res: "getArtifacts (fst (trackDeploymentReceipt empty_env
         (trackSendTransaction sample_tracker ''0xaa'' ''0x6001DEADBEEF'') ''0xaa'' ''0xAbC''))
       = [(''0xabc'', JObj [(''abi'', JArr []), (''contractName'', JStr ''Counter''),
            (''sourceName'', JStr ''contracts/Counter.sol''), (''buildInfoId'', JUndefined),
            (''deployments'', JArr [JStr ''0xAbC''])])]"
    by code_simp
  from typed inv m addr res
    track_then_receipt_tracks_deployment [OF typed inv a m uniq addr, of empty_env "''0xaa''"]
  show ?thesis by blast
qed

section \<open>Properties of the scan\<close>








section \<open>Properties of the aggregator\<close>

lemma define_prop_nonempty: "define_prop ps k v \<noteq> []"
  by (cases ps) (auto split: if_splits)

lemma object_spread_Nil_iff: "object_spread target source = [] \<longleftrightarrow> target = [] \<and> source = []"
proof (induction source arbitrary: target)
  case Nil
  then show ?case by (simp add: object_spread_def)
next
  case (Cons p source)
  obtain k v where p: "p = (k, v)" by (cases p)
  have "object_spread target (p # source) = object_spread (define_prop target k v) source"
    by (simp add: object_spread_def p)
  then show ?case using Cons.IH [of "define_prop target k v"]
    by (simp add: define_prop_nonempty)
qed

lemma combined_Nil_iff: "combined a b = [] \<longleftrightarrow> a = [] \<and> b = []"
  by (auto simp: combined_def object_spread_Nil_iff)

lemma map_of_combined:
  assumes "distinct (map fst a)" "distinct (map fst b)"
  shows "map_of (combined a b) = map_of a ++ map_of b"
  using assms by (simp add: combined_def map_of_object_spread)

lemma distinct_object_spread:
  "distinct (map fst target) \<Longrightarrow> distinct (map fst (object_spread target source))"
proof (induction source arbitrary: target)
  case Nil
  then show ?case by (simp add: object_spread_def)
next
  case (Cons p source)
  obtain k v where p: "p = (k, v)" by (cases p)
  have "object_spread target (p # source) = object_spread (define_prop target k v) source"
    by (simp add: object_spread_def p)
  then show ?case
    using Cons.IH [of "define_prop target k v"] Cons.prems by (simp add: distinct_define_prop)
qed

lemma distinct_combined: "distinct (map fst (combined a b))"
  by (simp add: combined_def distinct_object_spread)

lemma aggregate_cases:
  "aggregate None tracked = (if tracked = [] then None else Some (combined [] tracked))"
  "aggregate (Some m) tracked = (if m = [] \<and> tracked = [] then None else Some (combined m tracked))"
  by (simp_all add: aggregate_def or_empty_def Object_keys_def Let_def combined_Nil_iff)

lemma bound_to_aggregate_None:
  assumes "distinct (map fst tracked)"
  shows "bound_to (aggregate None tracked) k = map_of tracked k"
  using map_of_combined [of "[]" tracked] assms
  by (simp add: aggregate_cases bound_to_def)

lemma bound_to_aggregate_Some:
  assumes "distinct (map fst m)" "distinct (map fst tracked)"
  shows "bound_to (aggregate (Some m) tracked) k = (map_of m ++ map_of tracked) k"
  using map_of_combined [OF assms]
  by (simp add: aggregate_cases bound_to_def)

text \<open>
  C3. The aggregator computes the merge of \<open>structured ?? {}\<close> and \<open>tracked\<close>. For every
  structured AddressMap or \<open>null\<close> and every tracked AddressMap (objects, so with
  distinct keys): a key of the tracked map is bound in the result to the tracked entry,
  whether or not the structured map has it; a key that only the structured map has is
  bound to the structured entry; a key that neither has is not bound; with \<open>null\<close> in
  place of the structured map the result binds exactly the tracked entries. The result
  is an object again (distinct keys). In particular merging \<open>{A: x}\<close> with \<open>{A: y, B: z}\<close>
  yields \<open>{A: y, B: z}\<close>, and merging \<open>{A: x, C: w}\<close> with \<open>{A: y, B: z}\<close> yields
  \<open>{A: y, C: w, B: z}\<close>.
\<close>

theorem aggregate_tracked_wins:
  assumes "distinct (map fst m)" and "distinct (map fst tracked)"
  shows "(\<forall>k y. map_of tracked k = Some y \<longrightarrow>
            bound_to (aggregate (Some m) tracked) k = Some y
            \<and> bound_to (aggregate None tracked) k = Some y)
       \<and> (\<forall>k x. map_of tracked k = None \<and> map_of m k = Some x \<longrightarrow>
            bound_to (aggregate (Some m) tracked) k = Some x)
       \<and> (\<forall>k. map_of tracked k = None \<and> map_of m k = None \<longrightarrow>
            bound_to (aggregate (Some m) tracked) k = None)
       \<and> (\<forall>k. map_of tracked k = None \<longrightarrow> bound_to (aggregate None tracked) k = None)
       \<and> (\<forall>c. aggregate (Some m) tracked = Some c \<or> aggregate None tracked = Some c \<longrightarrow>
            distinct (map fst c))
       \<and> (\<forall>A B x y z. A \<noteq> B \<longrightarrow>
            aggregate (Some [(A, x)]) [(A, y), (B, z)] = Some [(A, y), (B, z)])
       \<and> (\<forall>A B C x y z w. A \<noteq> B \<and> A \<noteq> C \<and> B \<noteq> C \<longrightarrow>
            aggregate (Some [(A, x), (C, w)]) [(A, y), (B, z)] = Some [(A, y), (C, w), (B, z)])"
proof (intro conjI allI impI)
  fix k y
  assume "map_of tracked k = Some y"
  then show "bound_to (aggregate (Some m) tracked) k = Some y"
    by (simp add: bound_to_aggregate_Some [OF assms] map_add_def)
next
  fix k y
  assume "map_of tracked k = Some y"
  then show "bound_to (aggregate None tracked) k = Some y"
    by (simp add: bound_to_aggregate_None [OF assms(2)])
next
  fix k x
  assume "map_of tracked k = None \<and> map_of m k = Some x"
  then show "bound_to (aggregate (Some m) tracked) k = Some x"
    by (simp add: bound_to_aggregate_Some [OF assms] map_add_def)
next
  fix k
  assume "map_of tracked k = None \<and> map_of m k = None"
  then show "bound_to (aggregate (Some m) tracked) k = None"
    by (simp add: bound_to_aggregate_Some [OF assms] map_add_def)
next
  fix k
  assume "map_of tracked k = None"
  then show "bound_to (aggregate None tracked) k = None"
    by (simp add: bound_to_aggregate_None [OF assms(2)])
next
  fix c
  assume "aggregate (Some m) tracked = Some c \<or> aggregate None tracked = Some c"
  then show "distinct (map fst c)"
    using distinct_combined [of m tracked] distinct_combined [of "[]" tracked]
    by (auto simp: aggregate_cases split: if_splits)
next
  fix A B :: string and x y z :: jsval
  assume "A \<noteq> B"
  then show "aggregate (Some [(A, x)]) [(A, y), (B, z)] = Some [(A, y), (B, z)]"
    by (simp add: aggregate_def or_empty_def combined_def object_spread_def Object_keys_def)
next
  fix A B C :: string and x y z w :: jsval
  assume "A \<noteq> B \<and> A \<noteq> C \<and> B \<noteq> C"
  then show "aggregate (Some [(A, x), (C, w)]) [(A, y), (B, z)] = Some [(A, y), (C, w), (B, z)]"
    by (auto simp: aggregate_def or_empty_def combined_def object_spread_def Object_keys_def)
qed

theorem aggregate_tracked_wins_witness:
  "distinct (map fst [(''0xa'', JStr ''x''), (''0xc'', JStr ''w'')])
   \<and> distinct (map fst [(''0xa'', JStr ''y''), (''0xb'', JStr ''z'')])
   \<and> map_of [(''0xa'', JStr ''y''), (''0xb'', JStr ''z'')] ''0xa'' = Some (JStr ''y'')
   \<and> bound_to (aggregate (Some [(''0xa'', JStr ''x''), (''0xc'', JStr ''w'')])
                 [(''0xa'', JStr ''y''), (''0xb'', JStr ''z'')]) ''0xa''
       = Some (JStr ''y'')
   \<and> map_of [(''0xa'', JStr ''y''), (''0xb'', JStr ''z'')] ''0xc'' = None
   \<and> map_of [(''0xa'', JStr ''x''), (''0xc'', JStr ''w'')] ''0xc'' = Some (JStr ''w'')
   \<and> bound_to (aggregate (Some [(''0xa'', JStr ''x''), (''0xc'', JStr ''w'')])
                 [(''0xa'', JStr ''y''), (''0xb'', JStr ''z'')]) ''0xc''
       = Some (JStr ''w'')
   \<and> aggregate (Some [(''0xa'', JStr ''x''), (''0xc'', JStr ''w'')])
        [(''0xa'', JStr ''y''), (''0xb'', JStr ''z'')]
       = Some [(''0xa'', JStr ''y''), (''0xc'', JStr ''w''), (''0xb'', JStr ''z'')]
   \<and> aggregate (Some [(''0xa'', JStr ''x'')]) [(''0xa'', JStr ''y''), (''0xb'', JStr ''z'')]
       = Some [(''0xa'', JStr ''y''), (''0xb'', JStr ''z'')]"
proof -
  let ?m = "[(''0xa'', JStr ''x''), (''0xc'', JStr ''w'')]"
  let ?t = "[(''0xa'', JStr ''y''), (''0xb'', JStr ''z'')]"
  have d1: "distinct (map fst ?m)" by simp
  have d2: "distinct (map fst ?t)" by simp
  have ta: "map_of ?t ''0xa'' = Some (JStr ''y'')" by simp
  have tc: "map_of ?t ''0xc'' = None" by simp
  have mc: "map_of ?m ''0xc'' = Some (JStr ''w'')" by simp
  note inst = aggregate_tracked_wins [OF d1 d2]
  have c1: "\<forall>k y. map_of ?t k = Some y \<longrightarrow>
            bound_to (aggregate (Some ?m) ?t) k = Some y
            \<and> bound_to (aggregate None ?t) k = Some y"
    using inst by (rule conjunct1)
  have c2: "\<forall>k x. map_of ?t k = None \<and> map_of ?m k = Some x \<longrightarrow>
            bound_to (aggregate (Some ?m) ?t) k = Some x"
    using inst [THEN conjunct2] by (rule conjunct1)
  have r1: "bound_to (aggregate (Some ?m) ?t) ''0xa'' = Some (JStr ''y'')"
    using c1 [rule_format, OF ta] by (rule conjunct1)
  have r2: "bound_to (aggregate (Some ?m) ?t) ''0xc'' = Some (JStr ''w'')"
    using conjI [OF tc mc] by (rule c2 [rule_format])
  have r3: "aggregate (Some ?m) ?t
      = Some [(''0xa'', JStr ''y''), (''0xc'', JStr ''w''), (''0xb'', JStr ''z'')]"
    by code_simp
  have r4: "aggregate (Some [(''0xa'', JStr ''x'')]) ?t = Some ?t"
    by code_simp
  show ?thesis
    by (intro conjI d1 d2 ta r1 tc mc r2 r3 r4)
qed

text \<open>
  C4. The aggregator returns \<open>null\<close> exactly when the merge has no key, that is when the
  tracked map is empty and the structured input is \<open>null\<close> or the empty map; so a
  structured map with an entry, or a tracked map with an entry, never gives \<open>null\<close>. In
  particular \<open>null\<close> structured input with an empty tracked map yields \<open>null\<close>. For
  every other pair of inputs (objects, so with distinct keys) it returns the merged
  map: a non-empty object whose keys are those of the two inputs, each bound to the
  tracked entry when the tracked map has the key and to the structured entry otherwise.
\<close>

theorem aggregate_null_iff_empty:
  "(aggregate structured tracked = None
      \<longleftrightarrow> tracked = [] \<and> (structured = None \<or> structured = Some []))
   \<and> aggregate None [] = None
   \<and> aggregate (Some []) [] = None
   \<and> (\<forall>k v ps. aggregate (Some ((k, v) # ps)) [] \<noteq> None)
   \<and> (\<forall>k v ps s. aggregate s ((k, v) # ps) \<noteq> None)
   \<and> (distinct (map fst tracked) \<and> (\<forall>m. structured = Some m \<longrightarrow> distinct (map fst m))
        \<and> \<not> (tracked = [] \<and> (structured = None \<or> structured = Some []))
      \<longrightarrow> (\<exists>c. aggregate structured tracked = Some c \<and> c \<noteq> [] \<and> distinct (map fst c)
             \<and> set (map fst c)
                 = set (map fst tracked)
                   \<union> (case structured of None \<Rightarrow> {} | Some m \<Rightarrow> set (map fst m))
             \<and> (\<forall>k. map_of c k =
                   (case map_of tracked k of
                      Some y \<Rightarrow> Some y
                    | None \<Rightarrow> (case structured of None \<Rightarrow> None | Some m \<Rightarrow> map_of m k)))))"
proof (intro conjI allI impI)
  show "aggregate structured tracked = None
      \<longleftrightarrow> tracked = [] \<and> (structured = None \<or> structured = Some [])"
    by (cases structured) (auto simp: aggregate_cases)
next
  show "aggregate None [] = None" by (simp add: aggregate_cases)
next
  show "aggregate (Some []) [] = None" by (simp add: aggregate_cases)
next
  fix k :: string and v :: jsval and ps
  show "aggregate (Some ((k, v) # ps)) [] \<noteq> None" by (simp add: aggregate_cases)
next
  fix k :: string and v :: jsval and ps s
  show "aggregate s ((k, v) # ps) \<noteq> None" by (cases s) (simp_all add: aggregate_cases)
next
  assume h: "distinct (map fst tracked) \<and> (\<forall>m. structured = Some m \<longrightarrow> distinct (map fst m))
        \<and> \<not> (tracked = [] \<and> (structured = None \<or> structured = Some []))"
  show "\<exists>c. aggregate structured tracked = Some c \<and> c \<noteq> [] \<and> distinct (map fst c)
             \<and> set (map fst c)
                 = set (map fst tracked)
                   \<union> (case structured of None \<Rightarrow> {} | Some m \<Rightarrow> set (map fst m))
             \<and> (\<forall>k. map_of c k =
                   (case map_of tracked k of
                      Some y \<Rightarrow> Some y
                    | None \<Rightarrow> (case structured of None \<Rightarrow> None | Some m \<Rightarrow> map_of m k)))"
  proof (cases structured)
    case None
    let ?c = "combined [] tracked"
    from h None have ne: "tracked \<noteq> []" by simp
    have m: "map_of ?c = map_of tracked"
      using map_of_combined [of "[]" tracked] h by simp
    have "set (map fst ?c) = dom (map_of ?c)" by (simp add: dom_map_of_conv_image_fst)
    also have "\<dots> = set (map fst tracked)" by (simp add: m dom_map_of_conv_image_fst)
    finally have keys: "set (map fst ?c) = set (map fst tracked)" .
    have "aggregate structured tracked = Some ?c" using None ne by (simp add: aggregate_cases)
    moreover have "?c \<noteq> []" using ne by (simp add: combined_Nil_iff)
    moreover have "distinct (map fst ?c)" by (rule distinct_combined)
    moreover have "\<forall>k. map_of ?c k =
        (case map_of tracked k of Some y \<Rightarrow> Some y
         | None \<Rightarrow> (case structured of None \<Rightarrow> None | Some m \<Rightarrow> map_of m k))"
      using None by (simp add: m split: option.splits)
    ultimately show ?thesis using keys None by simp
  next
    case (Some s)
    let ?c = "combined s tracked"
    from h Some have ne: "\<not> (s = [] \<and> tracked = [])" by auto
    from h Some have d: "distinct (map fst s)" "distinct (map fst tracked)" by simp_all
    have m: "map_of ?c = map_of s ++ map_of tracked"
      using d by (rule map_of_combined)
    have "set (map fst ?c) = dom (map_of ?c)" by (simp add: dom_map_of_conv_image_fst)
    also have "\<dots> = set (map fst tracked) \<union> set (map fst s)"
      by (auto simp: m dom_map_of_conv_image_fst)
    finally have keys: "set (map fst ?c) = set (map fst tracked) \<union> set (map fst s)" .
    have "aggregate structured tracked = Some ?c" using Some ne by (simp add: aggregate_cases)
    moreover have "?c \<noteq> []" using ne by (simp add: combined_Nil_iff)
    moreover have "distinct (map fst ?c)" by (rule distinct_combined)
    moreover have "\<forall>k. map_of ?c k =
        (case map_of tracked k of Some y \<Rightarrow> Some y
         | None \<Rightarrow> (case structured of None \<Rightarrow> None | Some m \<Rightarrow> map_of m k))"
      using Some by (simp add: m map_add_def split: option.splits)
    ultimately show ?thesis using keys Some by simp
  qed
qed

theorem aggregate_null_iff_empty_witness:
  "aggregate None [] = None
   \<and> aggregate (Some []) [] = None
   \<and> aggregate (Some [(''0xa'', JStr ''x'')]) [] = Some [(''0xa'', JStr ''x'')]
   \<and> aggregate None [(''0xb'', JStr ''z'')] = Some [(''0xb'', JStr ''z'')]
   \<and> distinct (map fst ([] :: AddressMap))
   \<and> distinct (map fst [(''0xa'', JStr ''x'')])
   \<and> (\<exists>c. aggregate (Some [(''0xa'', JStr ''x'')]) [] = Some c \<and> c \<noteq> []
          \<and> map_of c ''0xa'' = Some (JStr ''x''))"
proof -
  let ?m = "[(''0xa'', JStr ''x'')]"
  have z: "aggregate None [] = None" by code_simp
  have n: "aggregate (Some []) [] = None" by code_simp
  have a: "aggregate (Some ?m) [] = Some ?m" by code_simp
  have s: "aggregate None [(''0xb'', JStr ''z'')] = Some [(''0xb'', JStr ''z'')]" by code_simp
  have d0: "distinct (map fst ([] :: AddressMap))" by simp
  have d1: "distinct (map fst ?m)" by simp
  have h: "distinct (map fst ([] :: AddressMap))
        \<and> (\<forall>m. Some ?m = Some m \<longrightarrow> distinct (map fst m))
        \<and> \<not> (([] :: AddressMap) = [] \<and> (Some ?m = None \<or> Some ?m = Some []))"
    by simp
  note inst = aggregate_null_iff_empty [of "Some ?m" "[]",
      THEN conjunct2, THEN conjunct2, THEN conjunct2, THEN conjunct2, THEN conjunct2]
  from inst [THEN mp, OF h] obtain c where
    c: "aggregate (Some ?m) [] = Some c \<and> c \<noteq> [] \<and> distinct (map fst c)
             \<and> set (map fst c)
                 = set (map fst ([] :: AddressMap))
                   \<union> (case Some ?m of None \<Rightarrow> {} | Some m \<Rightarrow> set (map fst m))
             \<and> (\<forall>k. map_of c k =
                   (case map_of ([] :: AddressMap) k of
                      Some y \<Rightarrow> Some y
                    | None \<Rightarrow> (case Some ?m of None \<Rightarrow> None | Some m \<Rightarrow> map_of m k)))" ..
  note c1 = c [THEN conjunct1]
  note c2 = c [THEN conjunct2, THEN conjunct1]
  note c3 = c [THEN conjunct2, THEN conjunct2, THEN conjunct2, THEN conjunct2]
  from c3 have c4: "map_of c ''0xa'' = Some (JStr ''x'')" by simp
  from c1 c2 c4 have e: "\<exists>c. aggregate (Some ?m) [] = Some c \<and> c \<noteq> []
          \<and> map_of c ''0xa'' = Some (JStr ''x'')"
    by (intro exI [of _ c] conjI)
  show ?thesis
    by (intro conjI z n a s d0 d1 e)
qed

section \<open>Properties of the structured deployment loader\<close>




section \<open>Properties of the string operations\<close>

lemma of_char_canonicalize:
  "(of_char (canonicalize c) :: nat) =
     (if (97 \<le> (of_char c :: nat) \<and> (of_char c :: nat) \<le> 122)
         \<or> (224 \<le> (of_char c :: nat) \<and> (of_char c :: nat) \<le> 254 \<and> (of_char c :: nat) \<noteq> 247)
      then of_char c - 32 else of_char c)"
proof -
  have lt: "(of_char c :: nat) < 256" by (rule nat_of_char_less_256)
  then have "(of_char c - 32 :: nat) < 256" by arith
  then have "(of_char c - 32 :: nat) mod 256 = of_char c - 32" by (rule mod_less)
  then show ?thesis by (simp add: canonicalize_def Let_def)
qed

lemma canonicalize_letter_iff:
  assumes u: "of_char u = (k::nat)" and l: "of_char l = k + 32" and k: "65 \<le> k" "k \<le> 90"
  shows "canonicalize c = u \<longleftrightarrow> c = l \<or> c = u"
proof -
  have cu: "c = u \<longleftrightarrow> (of_char c :: nat) = k"
    using u of_char_eq_iff [of c u, where ?'a = nat] by simp
  have cl: "c = l \<longleftrightarrow> (of_char c :: nat) = k + 32"
    using l of_char_eq_iff [of c l, where ?'a = nat] by simp
  have can: "canonicalize c = u \<longleftrightarrow> (of_char (canonicalize c) :: nat) = k"
    using u of_char_eq_iff [of "canonicalize c" u, where ?'a = nat] by simp
  show ?thesis
    unfolding can cu cl of_char_canonicalize using k by auto
qed

lemma canonicalize_punct_iff:
  assumes p: "of_char p = (k::nat)" and k: "k < 65"
  shows "canonicalize c = p \<longleftrightarrow> c = p"
proof -
  have cp: "c = p \<longleftrightarrow> (of_char c :: nat) = k"
    using p of_char_eq_iff [of c p, where ?'a = nat] by simp
  have can: "canonicalize c = p \<longleftrightarrow> (of_char (canonicalize c) :: nat) = k"
    using p of_char_eq_iff [of "canonicalize c" p, where ?'a = nat] by simp
  show ?thesis
    unfolding can cp of_char_canonicalize using k by auto
qed

lemma canonicalize_punct:
  "canonicalize c = CHR ''<'' \<longleftrightarrow> c = CHR ''<''"
  "canonicalize c = CHR ''/'' \<longleftrightarrow> c = CHR ''/''"
  "canonicalize c = CHR ''>'' \<longleftrightarrow> c = CHR ''>''"
  using canonicalize_punct_iff [of "CHR ''<''" 60 c] canonicalize_punct_iff [of "CHR ''/''" 47 c]
    canonicalize_punct_iff [of "CHR ''>''" 62 c]
  by simp_all

lemma canonicalize_letter:
  "canonicalize c = CHR ''S'' \<longleftrightarrow> c = CHR ''s'' \<or> c = CHR ''S''"
  "canonicalize c = CHR ''C'' \<longleftrightarrow> c = CHR ''c'' \<or> c = CHR ''C''"
  "canonicalize c = CHR ''R'' \<longleftrightarrow> c = CHR ''r'' \<or> c = CHR ''R''"
  "canonicalize c = CHR ''I'' \<longleftrightarrow> c = CHR ''i'' \<or> c = CHR ''I''"
  "canonicalize c = CHR ''P'' \<longleftrightarrow> c = CHR ''p'' \<or> c = CHR ''P''"
  "canonicalize c = CHR ''T'' \<longleftrightarrow> c = CHR ''t'' \<or> c = CHR ''T''"
  using canonicalize_letter_iff [of "CHR ''S''" 83 "CHR ''s''" c]
    canonicalize_letter_iff [of "CHR ''C''" 67 "CHR ''c''" c]
    canonicalize_letter_iff [of "CHR ''R''" 82 "CHR ''r''" c]
    canonicalize_letter_iff [of "CHR ''I''" 73 "CHR ''i''" c]
    canonicalize_letter_iff [of "CHR ''P''" 80 "CHR ''p''" c]
    canonicalize_letter_iff [of "CHR ''T''" 84 "CHR ''t''" c]
  by simp_all

lemma canonicalize_script_close:
  "map canonicalize script_close = ''</SCRIPT>''"
  by (simp add: script_close_def canonicalize_punct canonicalize_letter)

lemma script_close_at_eval:
  "script_close_at s =
     (case s of
        c0 # c1 # c2 # c3 # c4 # c5 # c6 # c7 # c8 # r \<Rightarrow>
          (if c0 = CHR ''<'' then
             (if c1 = CHR ''/'' then
                (c2 = CHR ''s'' \<or> c2 = CHR ''S'') \<and> (c3 = CHR ''c'' \<or> c3 = CHR ''C'')
                \<and> (c4 = CHR ''r'' \<or> c4 = CHR ''R'') \<and> (c5 = CHR ''i'' \<or> c5 = CHR ''I'')
                \<and> (c6 = CHR ''p'' \<or> c6 = CHR ''P'') \<and> (c7 = CHR ''t'' \<or> c7 = CHR ''T'')
                \<and> c8 = CHR ''>''
              else False)
           else False)
      | _ \<Rightarrow> False)"
  unfolding script_close_at_def canonicalize_script_close
  by (simp add: script_close_def canonicalize_punct canonicalize_letter split: list.splits)

lemma script_close_at_long:
  "script_close_at (c0 # c1 # c2 # c3 # c4 # c5 # c6 # c7 # c8 # r) =
     (if c0 = CHR ''<'' then
        (if c1 = CHR ''/'' then
           (c2 = CHR ''s'' \<or> c2 = CHR ''S'') \<and> (c3 = CHR ''c'' \<or> c3 = CHR ''C'')
           \<and> (c4 = CHR ''r'' \<or> c4 = CHR ''R'') \<and> (c5 = CHR ''i'' \<or> c5 = CHR ''I'')
           \<and> (c6 = CHR ''p'' \<or> c6 = CHR ''P'') \<and> (c7 = CHR ''t'' \<or> c7 = CHR ''T'')
           \<and> c8 = CHR ''>''
         else False)
      else False)"
  by (simp add: script_close_at_eval)

lemma script_close_at_short:
  "script_close_at [] = False"
  "script_close_at [c0] = False"
  "script_close_at [c0, c1] = False"
  "script_close_at [c0, c1, c2] = False"
  "script_close_at [c0, c1, c2, c3] = False"
  "script_close_at [c0, c1, c2, c3, c4] = False"
  "script_close_at [c0, c1, c2, c3, c4, c5] = False"
  "script_close_at [c0, c1, c2, c3, c4, c5, c6] = False"
  "script_close_at [c0, c1, c2, c3, c4, c5, c6, c7] = False"
  by (simp_all add: script_close_at_eval)

lemma json_escape_plain:
  "32 \<le> (of_char c :: nat) \<Longrightarrow> c \<noteq> CHR 0x22 \<Longrightarrow> c \<noteq> CHR 0x5C \<Longrightarrow> json_escape c = [c]"
proof -
  assume a: "32 \<le> (of_char c :: nat)" "c \<noteq> CHR 0x22" "c \<noteq> CHR 0x5C"
  have "(of_char c :: nat) \<noteq> 34"
    using a(2) of_char_eq_iff [of c "CHR 0x22", where ?'a = nat] by simp
  moreover have "(of_char c :: nat) \<noteq> 92"
    using a(3) of_char_eq_iff [of c "CHR 0x5C", where ?'a = nat] by simp
  ultimately show ?thesis using a(1) by (simp add: json_escape_def Let_def)
qed

lemma json_escape_quote: "json_escape (CHR 0x22) = [CHR 0x5C, CHR 0x22]"
  by (simp add: json_escape_def)

lemma json_escape_backslash: "json_escape (CHR 0x5C) = [CHR 0x5C, CHR 0x5C]"
  by (simp add: json_escape_def)

lemmas eval_simps =
  script_close_at_long script_close_at_short json_escape_plain json_escape_quote json_escape_backslash
  QuoteJSONString_def JSON_stringify_object_def artifactsScript_def scriptTag_def
  escaped_script_close_def script_close_def injectArtifactsScript_def String_replace_def
  startsWith_def Object_keys_def Let_def

lemma startsWith_iff: "startsWith s p \<longleftrightarrow> (\<exists>v. s = p @ v)"
  by (metis startsWith_prefix prefix_def)

lemma occurs_in_Cons:
  "occurs_in pat (c # cs) \<longleftrightarrow> startsWith (c # cs) pat \<or> occurs_in pat cs"
proof
  assume "occurs_in pat (c # cs)"
  then obtain u v where uv: "c # cs = u @ pat @ v" by (auto simp: occurs_in_def)
  show "startsWith (c # cs) pat \<or> occurs_in pat cs"
  proof (cases u)
    case Nil
    with uv show ?thesis by (auto simp: startsWith_iff)
  next
    case (Cons a u')
    with uv have "cs = u' @ pat @ v" by simp
    then show ?thesis by (auto simp: occurs_in_def)
  qed
next
  assume "startsWith (c # cs) pat \<or> occurs_in pat cs"
  then show "occurs_in pat (c # cs)"
  proof
    assume "startsWith (c # cs) pat"
    then obtain v where "c # cs = [] @ pat @ v" by (auto simp: startsWith_iff)
    then show ?thesis unfolding occurs_in_def by blast
  next
    assume "occurs_in pat cs"
    then obtain u v where "cs = u @ pat @ v" by (auto simp: occurs_in_def)
    then have "c # cs = (c # u) @ pat @ v" by simp
    then show ?thesis unfolding occurs_in_def by blast
  qed
qed

lemma occurs_in_Nil: "occurs_in pat [] \<longleftrightarrow> pat = []"
  by (auto simp: occurs_in_def)

lemma indexOf_None_iff: "indexOf s pat = None \<longleftrightarrow> \<not> occurs_in pat s"
  by (induction s) (auto simp: occurs_in_Nil occurs_in_Cons split: option.splits)

lemma indexOf_first:
  assumes "\<not> occurs_in pat (pre @ butlast pat)"
  shows "indexOf (pre @ pat @ post) pat = Some (length pre)"
  using assms
proof (induction pre)
  case Nil
  have "startsWith (pat @ post) pat" by (simp add: startsWith_iff)
  then show ?case by (cases "pat @ post") auto
next
  case (Cons a pre)
  have ne: "pat \<noteq> []"
  proof
    assume "pat = []"
    then have "(a # pre) @ butlast pat = [] @ pat @ (a # pre)" by simp
    then have "occurs_in pat ((a # pre) @ butlast pat)" unfolding occurs_in_def by blast
    with Cons.prems show False by simp
  qed
  have no_start: "\<not> startsWith ((a # pre) @ pat @ post) pat"
  proof
    assume "startsWith ((a # pre) @ pat @ post) pat"
    then have tk: "take (length pat) ((a # pre) @ pat @ post) = pat" by (simp add: startsWith_def)
    define X where "X = (a # pre) @ butlast pat"
    have len: "length pat \<le> length X" using ne by (simp add: X_def)
    have "take (length pat) ((a # pre) @ pat @ post) = take (length pat) (X @ (last pat # post))"
      using ne unfolding X_def by (metis append.assoc append_Cons append_Nil append_butlast_last_id)
    also have "\<dots> = take (length pat) X"
      using len by (simp add: take_append)
    also have "\<dots> = take (length pat) ((a # pre) @ butlast pat)"
      by (simp add: X_def)
    finally have "take (length pat) ((a # pre) @ butlast pat) = pat" using tk by simp
    then have "(a # pre) @ butlast pat = [] @ pat @ drop (length pat) ((a # pre) @ butlast pat)"
      by (metis append_Nil append_take_drop_id)
    then have "occurs_in pat ((a # pre) @ butlast pat)" unfolding occurs_in_def by blast
    with Cons.prems show False by simp
  qed
  from Cons.prems have "\<not> occurs_in pat (pre @ butlast pat)"
    by (simp add: occurs_in_Cons)
  then have "indexOf (pre @ pat @ post) pat = Some (length pre)" by (rule Cons.IH)
  with no_start show ?case by simp
qed

lemma GetSubstitution_no_dollar:
  "CHR ''$'' \<notin> set x \<Longrightarrow>
   GetSubstitution m p q (x @ t) = x @ GetSubstitution m p q t"
proof (induction x)
  case Nil
  then show ?case by simp
next
  case (Cons c x)
  then have c: "c \<noteq> CHR ''$''" and x: "CHR ''$'' \<notin> set x" by auto
  show ?case
  proof (cases "x @ t")
    case Nil
    then show ?thesis by simp
  next
    case (Cons d rest)
    with c Cons.IH [OF x] show ?thesis by simp
  qed
qed

lemma GetSubstitution_plain:
  "CHR ''$'' \<notin> set x \<Longrightarrow> GetSubstitution m p q x = x"
  using GetSubstitution_no_dollar [of x m p q "[]"] by simp

lemma String_replace_first:
  assumes "\<not> occurs_in pat (pre @ butlast pat)"
  shows "String_replace (pre @ pat @ post) pat replacement
           = pre @ GetSubstitution pat pre post replacement @ post"
  using indexOf_first [OF assms, of post] by (simp add: String_replace_def)

section \<open>Properties of the injection\<close>

text \<open>
  C10. \<open>injectArtifactsScript\<close> inserts the script only by replacing the first
  occurrence of the exact text \<open><body>\<close>. A page in which that text does not occur is
  returned unchanged, whatever the loader gives. When the page is \<open>pre @ <body> @ post\<close>
  with no occurrence starting inside \<open>pre\<close>, and the AddressMap is non-empty, the result
  is \<open>pre @ <body>\<close>, then the injected script, then \<open>post\<close> as it was, any later
  \<open><body>\<close> included. The injected text is the replacement expansion of the script,
  which is the script itself when it holds no dollar sign.
\<close>

theorem injectArtifactsScript_first_body_only:
  "(\<not> occurs_in ''<body>'' html \<longrightarrow> injectArtifactsScript loader html = html)
   \<and> (artifacts \<noteq> [] \<and> html = pre @ ''<body>'' @ post \<and> \<not> occurs_in ''<body>'' (pre @ ''<body'')
        \<longrightarrow> injectArtifactsScript (Some (Inr (Some artifacts))) html
              = pre @ ''<body>''
                @ GetSubstitution ''<body>'' pre post (artifactsScript artifacts) @ post)
   \<and> (CHR ''$'' \<notin> set (artifactsScript artifacts)
        \<longrightarrow> GetSubstitution ''<body>'' pre post (artifactsScript artifacts)
              = artifactsScript artifacts)"
proof (intro conjI impI)
  assume "\<not> occurs_in ''<body>'' html"
  then have "indexOf html ''<body>'' = None" by (simp add: indexOf_None_iff)
  then show "injectArtifactsScript loader html = html"
    by (simp add: injectArtifactsScript_def String_replace_def split: option.splits sum.splits)
next
  assume a: "artifacts \<noteq> [] \<and> html = pre @ ''<body>'' @ post
             \<and> \<not> occurs_in ''<body>'' (pre @ ''<body'')"
  then have first: "\<not> occurs_in ''<body>'' (pre @ butlast ''<body>'')" by simp
  have "String_replace (pre @ ''<body>'' @ post) ''<body>'' (''<body>'' @ artifactsScript artifacts)
          = pre @ GetSubstitution ''<body>'' pre post (''<body>'' @ artifactsScript artifacts) @ post"
    using first by (rule String_replace_first)
  also have "GetSubstitution ''<body>'' pre post (''<body>'' @ artifactsScript artifacts)
          = ''<body>'' @ GetSubstitution ''<body>'' pre post (artifactsScript artifacts)"
    by (rule GetSubstitution_no_dollar) simp
  finally show "injectArtifactsScript (Some (Inr (Some artifacts))) html
              = pre @ ''<body>''
                @ GetSubstitution ''<body>'' pre post (artifactsScript artifacts) @ post"
    using a by (simp add: injectArtifactsScript_def Object_keys_def)
next
  assume "CHR ''$'' \<notin> set (artifactsScript artifacts)"
  then show "GetSubstitution ''<body>'' pre post (artifactsScript artifacts)
              = artifactsScript artifacts"
    by (rule GetSubstitution_plain)
qed


theorem injectArtifactsScript_first_body_only_witness:
  \<open>\<not> occurs_in ''<body>'' ''<body class="x"><p>hi</p></body>''
   \<and> injectArtifactsScript (Some (Inr (Some plain_map))) ''<body class="x"><p>hi</p></body>''
       = ''<body class="x"><p>hi</p></body>''
   \<and> plain_map \<noteq> []
   \<and> \<not> occurs_in ''<body>'' (''<html>'' @ ''<body'')
   \<and> CHR ''$'' \<notin> set (artifactsScript plain_map)
   \<and> injectArtifactsScript (Some (Inr (Some plain_map))) (''<html>'' @ ''<body>'' @ ''<body></html>'')
       = ''<html>'' @ ''<body>'' @ artifactsScript plain_map @ ''<body></html>''\<close>
proof -
  have n1: \<open>\<not> occurs_in ''<body>'' ''<body class="x"><p>hi</p></body>''\<close>
    by (simp add: indexOf_None_iff [symmetric] startsWith_def)
  have r1: \<open>injectArtifactsScript (Some (Inr (Some plain_map))) ''<body class="x"><p>hi</p></body>''
       = ''<body class="x"><p>hi</p></body>''\<close>
    using n1 injectArtifactsScript_first_body_only
      [of \<open>''<body class="x"><p>hi</p></body>''\<close> "Some (Inr (Some plain_map))"]
    by blast
  have ne: "plain_map \<noteq> []" by (simp add: plain_map_def)
  have n2: "\<not> occurs_in ''<body>'' (''<html>'' @ ''<body'')"
    by (simp add: indexOf_None_iff [symmetric] startsWith_def)
  have nd: "CHR ''$'' \<notin> set (artifactsScript plain_map)"
    by (simp add: eval_simps plain_map_def)
  have r2: "injectArtifactsScript (Some (Inr (Some plain_map))) (''<html>'' @ ''<body>'' @ ''<body></html>'')
       = ''<html>'' @ ''<body>'' @ artifactsScript plain_map @ ''<body></html>''"
    using ne n2 nd injectArtifactsScript_first_body_only
      [of "''<html>'' @ ''<body>'' @ ''<body></html>''" "None" plain_map "''<html>''" "''<body></html>''"]
    by simp
  show ?thesis by (intro conjI n1 r1 ne n2 nd r2)
qed

lemma length_script_close: "length script_close = 9"
  by (simp add: script_close_def)

lemma script_close_at_iff:
  "script_close_at s \<longleftrightarrow> map canonicalize (take 9 s) = map canonicalize script_close"
  by (simp only: script_close_at_def length_script_close)

lemma script_close_at_take: "script_close_at s \<longleftrightarrow> script_close_at (take 9 s)"
  by (simp add: script_close_at_iff)

lemma script_close_at_length: "script_close_at s \<Longrightarrow> 9 \<le> length s"
proof -
  assume "script_close_at s"
  then have "length (map canonicalize (take 9 s)) = length (map canonicalize script_close)"
    by (simp only: script_close_at_iff)
  then have "min (length s) 9 = 9" by (simp add: length_script_close)
  then show ?thesis by simp
qed

lemma script_close_at_pattern_chars:
  assumes "script_close_at s" "c \<in> set (take 9 s)"
  shows "pattern_char c"
proof -
  from assms(1) have eq: "map canonicalize (take 9 s) = map canonicalize script_close"
    by (simp only: script_close_at_iff)
  from assms(2) have "canonicalize c \<in> set (map canonicalize (take 9 s))" by simp
  then show ?thesis unfolding eq pattern_char_def .
qed

lemma script_close_at_separator:
  assumes "\<not> pattern_char c"
  shows "script_close_at (u @ c # y) \<longleftrightarrow> script_close_at u"
proof (cases "9 \<le> length u")
  case True
  then have "take 9 (u @ c # y) = take 9 u" by simp
  then show ?thesis
    using script_close_at_take [of "u @ c # y"] script_close_at_take [of u] by simp
next
  case False
  then have "c \<in> set (take 9 (u @ c # y))" by (simp add: take_Cons')
  then have "\<not> script_close_at (u @ c # y)"
    using assms script_close_at_pattern_chars by blast
  moreover have "\<not> script_close_at u"
    using False script_close_at_length by blast
  ultimately show ?thesis by simp
qed

lemma count_script_close_separator:
  assumes "\<not> pattern_char c"
  shows "count_script_close (x @ c # y) = count_script_close x + count_script_close y"
proof (induction x)
  case Nil
  have "\<not> script_close_at ([] @ c # y)"
    using script_close_at_separator [OF assms, of "[]" y] script_close_at_length [of "[]"] by auto
  then show ?case by simp
next
  case (Cons a x)
  have "script_close_at ((a # x) @ c # y) \<longleftrightarrow> script_close_at (a # x)"
    using assms by (rule script_close_at_separator)
  with Cons.IH show ?case by simp
qed

lemma script_close_at_first: "script_close_at (a # s) \<Longrightarrow> a = CHR ''<''"
  by (auto simp: script_close_at_eval split: list.splits if_splits)


lemma count_script_close_no_lt:
  "CHR ''<'' \<notin> set x \<Longrightarrow> count_script_close (x @ y) = count_script_close y"
proof (induction x)
  case Nil
  then show ?case by simp
next
  case (Cons a x)
  then have "a \<noteq> CHR ''<''" by auto
  then have "\<not> script_close_at (a # x @ y)" using script_close_at_first by blast
  with Cons show ?case by simp
qed

lemma escapeScriptClose_take:
  "\<forall>n. CHR ''<'' \<notin> set (take n (escapeScriptClose s)) \<longrightarrow>
       take n (escapeScriptClose s) = take n s"
proof (induction s rule: escapeScriptClose.induct)
  case 1
  then show ?case by simp
next
  case (2 c cs)
  show ?case
  proof (intro allI impI)
    fix n
    assume a: "CHR ''<'' \<notin> set (take n (escapeScriptClose (c # cs)))"
    show "take n (escapeScriptClose (c # cs)) = take n (c # cs)"
    proof (cases n)
      case 0
      then show ?thesis by simp
    next
      case (Suc m)
      show ?thesis
      proof (cases "script_close_at (c # cs)")
        case True
        then have "escapeScriptClose (c # cs)
            = CHR ''<'' # tl escaped_script_close @ escapeScriptClose (drop (length script_close) (c # cs))"
          by (simp add: escaped_script_close_def)
        with a Suc show ?thesis by simp
      next
        case False
        then have e: "escapeScriptClose (c # cs) = c # escapeScriptClose cs" by simp
        with a Suc have "CHR ''<'' \<notin> set (take m (escapeScriptClose cs))" by simp
        then have "take m (escapeScriptClose cs) = take m cs"
          using "2.IH"(2) [OF False] by blast
        then show ?thesis unfolding e Suc by simp
      qed
    qed
  qed
qed

lemma pattern_tail_no_lt:
  assumes "map canonicalize (c # t) = map canonicalize script_close"
  shows "CHR ''<'' \<notin> set t"
proof
  assume "CHR ''<'' \<in> set t"
  then have "canonicalize (CHR ''<'') \<in> set (map canonicalize t)" by simp
  moreover from assms have "map canonicalize t = tl (map canonicalize script_close)"
    by (metis list.sel(3) list.simps(9))
  moreover have "canonicalize (CHR ''<'') = CHR ''<''"
    by (simp add: canonicalize_def)
  ultimately show False
    by (simp add: canonicalize_script_close)
qed

lemma escapeScriptClose_no_new_match:
  assumes "\<not> script_close_at (c # cs)"
  shows "\<not> script_close_at (c # escapeScriptClose cs)"
proof
  assume m: "script_close_at (c # escapeScriptClose cs)"
  then have eq: "map canonicalize (c # take 8 (escapeScriptClose cs)) = map canonicalize script_close"
    by (simp add: script_close_at_iff take_Cons')
  then have "CHR ''<'' \<notin> set (take 8 (escapeScriptClose cs))"
    by (rule pattern_tail_no_lt)
  then have "take 8 (escapeScriptClose cs) = take 8 cs"
    using escapeScriptClose_take by blast
  with eq have "script_close_at (c # cs)"
    by (simp add: script_close_at_iff take_Cons')
  with assms show False by simp
qed

lemma not_pattern_char_backslash: "\<not> pattern_char (CHR 0x5C)"
  by (simp add: pattern_char_def canonicalize_script_close canonicalize_def)

lemma not_pattern_char_comma: "\<not> pattern_char (CHR '','')"
  by (simp add: pattern_char_def canonicalize_script_close canonicalize_def)

lemma not_pattern_char_paren: "\<not> pattern_char (CHR '')'')"
  by (simp add: pattern_char_def canonicalize_script_close canonicalize_def)

lemma count_escaped_script_close:
  "count_script_close (escaped_script_close @ y) = count_script_close y"
proof -
  have "count_script_close (escaped_script_close @ y)
          = count_script_close ([CHR ''<''] @ CHR 0x5C # (''/script>'' @ y))"
    by (simp add: escaped_script_close_def)
  also have "\<dots> = count_script_close [CHR ''<''] + count_script_close (''/script>'' @ y)"
    using not_pattern_char_backslash by (rule count_script_close_separator)
  also have "count_script_close (''/script>'' @ y) = count_script_close y"
    by (rule count_script_close_no_lt) simp
  also have "count_script_close [CHR ''<''] = 0"
    by (simp add: script_close_at_short)
  finally show ?thesis by simp
qed

lemma count_escapeScriptClose: "count_script_close (escapeScriptClose s) = 0"
proof (induction s rule: escapeScriptClose.induct)
  case 1
  then show ?case by simp
next
  case (2 c cs)
  show ?case
  proof (cases "script_close_at (c # cs)")
    case True
    then show ?thesis
      using "2.IH"(1) [OF True] by (simp add: count_escaped_script_close)
  next
    case False
    then show ?thesis
      using "2.IH"(2) [OF False] escapeScriptClose_no_new_match [OF False] by simp
  qed
qed

lemma scriptTag_split:
  \<open>scriptTag e =
     ''<script>try{localStorage.setItem("OPENSCAN_ARTIFACTS_JSON_V1"'' @ CHR '','' #
       (e @ CHR '')'' # ''}catch(e){console.warn("[openscan] Failed to inject artifacts:",e)}</script>'')\<close>
  by (simp add: scriptTag_def)

text \<open>The script as built holds exactly one closing script tag, the one that ends it,
  whatever the AddressMap holds: the escaping of line 225 removes every match and the
  text around the string literal cannot complete one.\<close>

lemma artifactsScript_single_script_close:
  "count_script_close (artifactsScript artifacts) = 1"
proof -
  define e where "e = escapeScriptClose (QuoteJSONString (JSON_stringify_object artifacts))"
  have p: \<open>count_script_close ''<script>try{localStorage.setItem("OPENSCAN_ARTIFACTS_JSON_V1"'' = 0\<close>
    by (simp add: script_close_at_long script_close_at_short)
  have s: \<open>count_script_close
      ''}catch(e){console.warn("[openscan] Failed to inject artifacts:",e)}</script>'' = 1\<close>
    by (simp add: script_close_at_long script_close_at_short)
  have "count_script_close (scriptTag e) = 0 + (count_script_close e + 1)"
    unfolding scriptTag_split
    by (simp only: count_script_close_separator [OF not_pattern_char_comma]
          count_script_close_separator [OF not_pattern_char_paren] p s)
  then show ?thesis
    by (simp add: artifactsScript_def Let_def e_def count_escapeScriptClose)
qed

text \<open>
  C9, at a failing input. The script built for \<open>dollar_map\<close> holds one closing script
  tag, its own: the escaping of line 225 works. \<open>html.replace\<close> then expands the
  characters \<open>$`\<close> of the source code into the part of the page before \<open><body>\<close>,
  which holds the closing tag of the head's script element: the page has one such tag
  before the injection and three after it, one of them inside the string literal. For
  \<open>plain_map\<close>, whose source code holds closing tags and no dollar sign, the page has
  two after it.
\<close>

theorem injectArtifactsScript_dollar_backtick:
  "count_script_close sample_page = 1
   \<and> count_script_close (artifactsScript dollar_map) = 1
   \<and> count_script_close (injectArtifactsScript (Some (Inr (Some dollar_map))) sample_page) = 3
   \<and> count_script_close (injectArtifactsScript (Some (Inr (Some plain_map))) sample_page) = 2"
proof (intro conjI)
  show "count_script_close sample_page = 1"
    by (simp add: sample_page_def script_close_at_long script_close_at_short)
  show "count_script_close (artifactsScript dollar_map) = 1"
    by (rule artifactsScript_single_script_close)
  show "count_script_close (injectArtifactsScript (Some (Inr (Some dollar_map))) sample_page) = 3"
    by (simp add: eval_simps dollar_map_def sample_page_def)
  show "count_script_close (injectArtifactsScript (Some (Inr (Some plain_map))) sample_page) = 2"
    by (simp add: eval_simps plain_map_def sample_page_def)
qed

section \<open>Properties of the returned copy\<close>

lemma values_define_prop:
  "snd ` set (define_prop ps k v) \<subseteq> insert v (snd ` set ps)"
  by (induction ps k v rule: define_prop.induct) auto

lemma values_object_spread:
  "snd ` set (object_spread target source) \<subseteq> snd ` set target \<union> snd ` set source"
proof (induction source arbitrary: target)
  case Nil
  then show ?case by (simp add: object_spread_def)
next
  case (Cons p source)
  obtain k v where p: "p = (k, v)" by (cases p)
  have "object_spread target (p # source) = object_spread (define_prop target k v) source"
    by (simp add: object_spread_def p)
  then show ?case
    using Cons.IH [of "define_prop target k v"] values_define_prop [of target k v] p
    by auto
qed





lemma define_prop_map:
  "map (\<lambda>p. (fst p, f (snd p))) (define_prop ps k v)
     = define_prop (map (\<lambda>p. (fst p, f (snd p))) ps) k (f v)"
  by (induction ps k v rule: define_prop.induct) auto

lemma object_spread_map:
  "map (\<lambda>p. (fst p, f (snd p))) (object_spread target source)
     = object_spread (map (\<lambda>p. (fst p, f (snd p))) target) (map (\<lambda>p. (fst p, f (snd p))) source)"
proof (induction source arbitrary: target)
  case Nil
  then show ?case by (simp add: object_spread_def)
next
  case (Cons p source)
  obtain k v where p: "p = (k, v)" by (cases p)
  have "object_spread target (p # source) = object_spread (define_prop target k v) source"
    by (simp add: object_spread_def p)
  then show ?case
    using Cons.IH [of "define_prop target k v"]
    by (simp add: define_prop_map p object_spread_def)
qed

text \<open>The store model refines the value model: the object \<open>getArtifacts_store\<close> returns
  denotes the value \<open>getArtifacts\<close> returns.\<close>

lemma getArtifacts_store_refines:
  "read_map (snd (getArtifacts_store h tracked)) (fst (getArtifacts_store h tracked))
     = getArtifacts (t\<lparr>trackedDeployments := read_map h tracked\<rparr>)"
  using object_spread_map
    [of "\<lambda>e. case entry_objs h e of Some ps \<Rightarrow> JObj ps | None \<Rightarrow> JUndefined" "[]"
        "case map_objs h tracked of Some ps \<Rightarrow> ps | None \<Rightarrow> []"]
  by (simp add: getArtifacts_def getArtifacts_store_def read_map_def Let_def)

text \<open>The copy is shallow: the new object holds references to the entry objects of the
  tracked object, not copies of them.\<close>

lemma getArtifacts_store_shares_entries:
  "map_objs (snd (getArtifacts_store h tracked)) (fst (getArtifacts_store h tracked)) = Some copy
   \<Longrightarrow> map_objs h tracked = Some ps
   \<Longrightarrow> snd ` set copy \<subseteq> snd ` set ps"
  using values_object_spread [of "[]" ps]
  by (auto simp: getArtifacts_store_def Let_def)





end
